theory Spec2Isabelle
  imports Main "HOL-Library.Multiset"
begin

section \<open>Python values, exceptions and sequence primitives\<close>

text \<open>
  The program is \<^verbatim>\<open>DTransformer/data.py\<close>.  A Python exception is a value of
  \<open>exn\<close>; a computation that may raise returns \<open>exn + 'a\<close>, with \<open>Inl\<close> the
  exception raised.  Python integers are \<open>int\<close>.  A \<^verbatim>\<open>str\<close> is a
  \<open>string\<close> whose characters are read as code points below 256.
\<close>

datatype exn =
  IndexError | ValueError | TypeError | KeyError | ZeroDivisionError
  | OSError | AssertionError | StopIteration | RuntimeError

text \<open>A list comprehension \<^verbatim>\<open>[f(x) for x in xs]\<close>: elements are evaluated left to
  right and the first exception leaves the comprehension.\<close>

fun comprehension :: "('a \<Rightarrow> exn + 'b) \<Rightarrow> 'a list \<Rightarrow> exn + 'b list" where
  "comprehension f [] = Inr []"
| "comprehension f (x # xs) =
     (case f x of
        Inl e \<Rightarrow> Inl e
      | Inr y \<Rightarrow> (case comprehension f xs of Inl e \<Rightarrow> Inl e | Inr ys \<Rightarrow> Inr (y # ys)))"

text \<open>\<^verbatim>\<open>range(a, b)\<close>: the integers \<open>a, a + 1, ..., b - 1\<close> (none when \<open>b \<le> a\<close>).\<close>

definition py_range :: "int \<Rightarrow> int \<Rightarrow> int list" where
  "py_range a b = [a..b - 1]"

text \<open>One bound of the slice \<^verbatim>\<open>xs[lo:hi]\<close> of a built-in sequence of length \<open>n\<close>:
  a negative bound counts from the end, and the result is clamped into \<open>[0, n]\<close>.\<close>

definition slice_bound :: "int \<Rightarrow> int \<Rightarrow> nat" where
  "slice_bound n v = nat (if v < 0 then max (v + n) 0 else min v n)"

definition py_slice :: "'a list \<Rightarrow> int \<Rightarrow> int \<Rightarrow> 'a list" where
  "py_slice xs lo hi =
     (let n = int (length xs); a = slice_bound n lo; b = slice_bound n hi
      in take (b - a) (drop a xs))"

text \<open>\<^verbatim>\<open>s.strip(chars)\<close> removes the characters of \<open>chars\<close> from both ends.\<close>

definition strip_chars :: "(char \<Rightarrow> bool) \<Rightarrow> string \<Rightarrow> string" where
  "strip_chars p s = rev (dropWhile p (rev (dropWhile p s)))"

definition is_crlf :: "char \<Rightarrow> bool" where
  "is_crlf c = (c = CHR 0x0D \<or> c = CHR 0x0A)"

text \<open>The white space of \<^verbatim>\<open>str.strip()\<close> among the code points below 256.\<close>

definition py_isspace :: "char \<Rightarrow> bool" where
  "py_isspace c =
     (let k = (of_char c :: nat)
      in (9 \<le> k \<and> k \<le> 13) \<or> (28 \<le> k \<and> k \<le> 32) \<or> k = 133 \<or> k = 160)"

text \<open>\<^verbatim>\<open>s.split(",")\<close>: the pieces between commas; always at least one piece.\<close>

fun split_comma :: "string \<Rightarrow> string list" where
  "split_comma [] = [[]]"
| "split_comma (c # cs) =
     (if c = CHR '','' then [] # split_comma cs
      else (case split_comma cs of t # ts \<Rightarrow> (c # t) # ts | [] \<Rightarrow> [[c]]))"

text \<open>
  \<^verbatim>\<open>int(s)\<close> in base ten, as the interpreter scans it: white space around is skipped
  (for \<^verbatim>\<open>int\<close> the code points 28 to 31 are not white space), an optional sign follows,
  then decimal digits in which single underscores may separate digits.  Anything else raises
  \<^verbatim>\<open>ValueError\<close>, and so does a text of more than 640 digits that exceeds the
  interpreter's limit \<^verbatim>\<open>sys.get_int_max_str_digits()\<close>, where a limit of 0 means none
  (leading zeros count as digits, sign and underscores do not).
\<close>

definition int_isspace :: "char \<Rightarrow> bool" where
  "int_isspace c =
     (let k = (of_char c :: nat) in (9 \<le> k \<and> k \<le> 13) \<or> k = 32 \<or> k = 133 \<or> k = 160)"

definition is_digit :: "char \<Rightarrow> bool" where
  "is_digit c = (let k = (of_char c :: nat) in 48 \<le> k \<and> k \<le> 57)"

fun int_digits :: "string \<Rightarrow> bool" where
  "int_digits [] = False"
| "int_digits [c] = is_digit c"
| "int_digits (c # d # cs) =
     (is_digit c \<and> (if d = CHR ''_'' then int_digits cs else int_digits (d # cs)))"

definition digits_value :: "string \<Rightarrow> int" where
  "digits_value s =
     fold (\<lambda>c acc. if c = CHR ''_'' then acc else 10 * acc + (int (of_char c) - 48)) s 0"

definition py_int :: "nat \<Rightarrow> string \<Rightarrow> exn + int" where
  "py_int max_str_digits s =
     (let t = strip_chars int_isspace s;
          negative = (t \<noteq> [] \<and> hd t = CHR ''-'');
          body = (if t \<noteq> [] \<and> (hd t = CHR ''-'' \<or> hd t = CHR ''+'') then tl t else t);
          digits = length (filter is_digit body)
      in if \<not> int_digits body then Inl ValueError
         else if 640 < digits \<and> 0 < max_str_digits \<and> max_str_digits < digits
         then Inl ValueError
         else Inr (if negative then - digits_value body else digits_value body))"

section \<open>Lines: the record-indexed file reader\<close>

text \<open>
  A text file is the string of its characters.  Python reads it with universal newlines:
  a carriage return, alone or followed by a line feed, ends a line as a line feed does and
  is handed on as a line feed.
\<close>

fun universal_newlines :: "string \<Rightarrow> string" where
  "universal_newlines [] = []"
| "universal_newlines [c] = [if c = CHR 0x0D then CHR 0x0A else c]"
| "universal_newlines (c # d # cs) =
     (if c = CHR 0x0D \<and> d = CHR 0x0A then CHR 0x0A # universal_newlines cs
      else if c = CHR 0x0D then CHR 0x0A # universal_newlines (d # cs)
      else c # universal_newlines (d # cs))"

text \<open>The lines of a text, each with its line feed; only the last may be without one.\<close>

fun split_lines :: "string \<Rightarrow> string list" where
  "split_lines [] = []"
| "split_lines (c # cs) =
     (if c = CHR 0x0A then [c] # split_lines cs
      else (case split_lines cs of [] \<Rightarrow> [[c]] | l # ls \<Rightarrow> (c # l) # ls))"

text \<open>\<^verbatim>\<open>fp.readlines()\<close>, and the lines of a file opened in text mode.\<close>

definition readlines :: "string \<Rightarrow> string list" where
  "readlines content = split_lines (universal_newlines content)"

text \<open>The list \<^verbatim>\<open>linecache\<close> keeps for a file: \<^verbatim>\<open>readlines()\<close>, with a line feed
  added to a last line that has none.\<close>

definition linecache_getlines :: "string \<Rightarrow> string list" where
  "linecache_getlines content =
     (let ls = readlines content
      in if ls \<noteq> [] \<and> (last ls = [] \<or> last (last ls) \<noteq> CHR 0x0A)
         then butlast ls @ [last ls @ [CHR 0x0A]]
         else ls)"

text \<open>
  \<^verbatim>\<open>linecache.getline(filename, lineno)\<close> returns entry \<open>lineno\<close> of that list
  (counted from 1) and the empty string for every other line number; it never raises.
  In a \<open>Lines\<close> value the field \<open>file_lines\<close> is the list \<^verbatim>\<open>linecache\<close> keeps for
  \<^verbatim>\<open>self.filename\<close>.
\<close>

definition linecache_getline :: "string list \<Rightarrow> int \<Rightarrow> string" where
  "linecache_getline ls lineno =
     (if 1 \<le> lineno \<and> lineno \<le> int (length ls) then ls ! nat (lineno - 1) else [])"

record Lines =
  file_lines :: "string list"
  length_l :: int
  skip :: int
  group :: int
  preserve_newline :: bool

text \<open>\<^verbatim>\<open>wc -l\<close> counts the line feed characters of the file.\<close>

definition wc_l :: "string \<Rightarrow> int" where
  "wc_l content = int (length (filter (\<lambda>c. c = CHR 0x0A) content))"

text \<open>\<^verbatim>\<open>Lines.__init__\<close>: \<open>file\<close> is the content of the file, \<open>None\<close> when the path
  cannot be opened.  On Windows the lines are counted by reading the file in text mode.\<close>

definition Lines_init :: "bool \<Rightarrow> string option \<Rightarrow> int \<Rightarrow> int \<Rightarrow> bool \<Rightarrow> exn + Lines" where
  "Lines_init win32 file skip' group' preserve =
     (case file of
        None \<Rightarrow> Inl OSError
      | Some content \<Rightarrow>
          (let linecount = (if win32 then int (length (readlines content)) else wc_l content)
           in if group' = 0 then Inl ZeroDivisionError
              else Inr \<lparr>file_lines = linecache_getlines content,
                        length_l = (linecount - skip') div group',
                        skip = skip', group = group', preserve_newline = preserve\<rparr>))"

text \<open>\<^verbatim>\<open>len(self)\<close>: the built-in \<^verbatim>\<open>len\<close> raises \<^verbatim>\<open>ValueError\<close> when
  \<^verbatim>\<open>__len__\<close> returns a negative number.\<close>

definition Lines_len :: "Lines \<Rightarrow> exn + int" where
  "Lines_len L = (if length_l L < 0 then Inl ValueError else Inr (length_l L))"

text \<open>What \<^verbatim>\<open>__getitem__\<close> returns for one record: a single \<^verbatim>\<open>str\<close> when
  \<^verbatim>\<open>group == 1\<close>, a list of \<^verbatim>\<open>str\<close> otherwise.\<close>

datatype record_item = Line string | Group "string list"

text \<open>The body that reads record \<open>i\<close>; \<^verbatim>\<open>__getitem__\<close> has it twice, once in the
  integer branch and once inside the slice loop.\<close>

definition fetch :: "Lines \<Rightarrow> int \<Rightarrow> record_item" where
  "fetch L i =
     (let d = skip L + 1
      in if group L = 1
         then (let line = linecache_getline (file_lines L) (i + d)
               in Line (if \<not> preserve_newline L then strip_chars is_crlf line else line))
         else (let line = map (\<lambda>k. linecache_getline (file_lines L) (d + i * group L + k))
                              (py_range 0 (group L))
               in Group (if \<not> preserve_newline L then map (strip_chars is_crlf) line
                         else line)))"

definition Lines_getitem_int :: "Lines \<Rightarrow> int \<Rightarrow> exn + record_item" where
  "Lines_getitem_int L item =
     (case Lines_len L of
        Inl e \<Rightarrow> Inl e
      | Inr n \<Rightarrow> if item < n then Inr (fetch L item) else Inl IndexError)"

definition clip :: "int \<Rightarrow> int \<Rightarrow> int \<Rightarrow> int" where
  "clip v low high =
     (let v1 = (if v < low then low else v);
          v2 = (if v1 > high then high else v1)
      in v2)"

definition Lines_getitem_slice :: "Lines \<Rightarrow> int option \<Rightarrow> int option \<Rightarrow> exn + record_item list" where
  "Lines_getitem_slice L start stop =
     (case Lines_len L of
        Inl e \<Rightarrow> Inl e
      | Inr n \<Rightarrow>
          (let low = (case start of None \<Rightarrow> 0 | Some s \<Rightarrow> s);
               low1 = clip low (- n) (n - 1);
               low2 = (if low1 < 0 then low1 + n else low1);
               high = (case stop of None \<Rightarrow> n | Some s \<Rightarrow> s);
               high1 = clip high (- n) n;
               high2 = (if high1 < 0 then high1 + n else high1)
           in Inr (map (fetch L) (py_range low2 high2))))"

text \<open>The index range of the slice \<^verbatim>\<open>xs[lo:hi]\<close> of a built-in sequence of length
  \<open>n\<close>, the array-slice normalisation the reader is compared with.\<close>

definition normalized_range :: "int \<Rightarrow> int option \<Rightarrow> int option \<Rightarrow> int list" where
  "normalized_range n lo hi =
     py_range (int (slice_bound n (case lo of None \<Rightarrow> 0 | Some s \<Rightarrow> s)))
              (int (slice_bound n (case hi of None \<Rightarrow> n | Some s \<Rightarrow> s)))"

text \<open>A file of three lines.\<close>

definition three_lines :: string where
  "three_lines = [CHR ''a'', CHR 0x0A, CHR ''b'', CHR 0x0A, CHR ''c'', CHR 0x0A]"

section \<open>Batch assembly: padding and windows\<close>

text \<open>
  A one-dimensional integer tensor is the list of its entries (\<^verbatim>\<open>torch.tensor\<close> of a
  list of integers keeps the entries; the 64-bit range of the library is not modelled).
  A two-dimensional tensor is its column count \<^verbatim>\<open>size(1)\<close> together with its rows.
\<close>

datatype tensor2 = Tensor2 (size1: nat) (rows: "int list list")

definition size0 :: "tensor2 \<Rightarrow> nat" where
  "size0 t = length (rows t)"

definition max_len :: "'a list list \<Rightarrow> nat" where
  "max_len xss = foldr (\<lambda>xs m. max (length xs) m) xss 0"

text \<open>
  Modelled from the spec: \<^verbatim>\<open>torch.nn.utils.rnn.pad_sequence\<close> with
  \<^verbatim>\<open>batch_first=True\<close> is library code outside the sources.  Following section 4.3 of
  the specification it builds the matrix with one row per sequence, as wide as the longest
  sequence, each row filled on the right with the padding value.
\<close>

definition pad_sequence :: "int list list \<Rightarrow> int \<Rightarrow> tensor2" where
  "pad_sequence seqs padding_value =
     (let m = max_len seqs
      in Tensor2 m (map (\<lambda>s. s @ replicate (m - length s) padding_value) seqs))"

text \<open>\<^verbatim>\<open>list(zip(*batch))\<close>: the transposition, cut at the shortest record.\<close>

fun min_len :: "'a list list \<Rightarrow> nat" where
  "min_len [] = 0"
| "min_len [xs] = length xs"
| "min_len (xs # ys # r) = min (length xs) (min_len (ys # r))"

definition zip_star :: "'a list list \<Rightarrow> 'a list list" where
  "zip_star xss = map (\<lambda>j. map (\<lambda>xs. xs ! j) xss) [0..<min_len xss]"

record Batch =
  b_data :: "tensor2 list"
  stoi :: "string \<Rightarrow> nat option"
  b_seq_len :: int

text \<open>\<^verbatim>\<open>Batch.__init__\<close>; in the dictionary comprehension a later occurrence of a field
  name replaces an earlier one.\<close>

definition Batch_init :: "tensor2 list \<Rightarrow> string list \<Rightarrow> int \<Rightarrow> Batch" where
  "Batch_init data' fields' seq_len' =
     \<lparr>b_data = data', stoi = map_of (rev (zip fields' [0..<length fields'])),
      b_seq_len = seq_len'\<rparr>"

text \<open>\<^verbatim>\<open>_transform_batch\<close>: a batch is a list of records, a record a list of integer
  sequences, one per field.\<close>

definition transform_batch :: "int list list list \<Rightarrow> string list \<Rightarrow> int \<Rightarrow> Batch" where
  "transform_batch batch fields' seq_len' =
     Batch_init (map (\<lambda>item. pad_sequence item (- 1)) (zip_star batch)) fields' seq_len'"

text \<open>The tensor slice \<^verbatim>\<open>t[:, a:b]\<close>: every row is sliced like a sequence.\<close>

definition col_slice :: "tensor2 \<Rightarrow> int \<Rightarrow> int \<Rightarrow> tensor2" where
  "col_slice t a b =
     Tensor2 (slice_bound (int (size1 t)) b - slice_bound (int (size1 t)) a)
             (map (\<lambda>r. py_slice r a b) (rows t))"

text \<open>\<^verbatim>\<open>Batch.get(*fields)\<close>.  \<^verbatim>\<open>self.data[0]\<close> raises \<^verbatim>\<open>IndexError\<close> on a batch
  without fields, \<^verbatim>\<open>L // self.seq_len\<close> raises \<^verbatim>\<open>ZeroDivisionError\<close>,
  \<^verbatim>\<open>self.stoi[f]\<close> raises \<^verbatim>\<open>KeyError\<close>.\<close>

definition Batch_window :: "Batch \<Rightarrow> string \<Rightarrow> int \<Rightarrow> exn + tensor2" where
  "Batch_window B f i =
     (case stoi B f of
        None \<Rightarrow> Inl KeyError
      | Some j \<Rightarrow>
          if j < length (b_data B)
          then Inr (col_slice (b_data B ! j) (i * b_seq_len B) ((i + 1) * b_seq_len B))
          else Inl IndexError)"

definition Batch_get :: "Batch \<Rightarrow> string list \<Rightarrow> exn + tensor2 list list" where
  "Batch_get B fields' =
     (case b_data B of
        [] \<Rightarrow> Inl IndexError
      | t0 # ts \<Rightarrow>
          (let L = int (size1 t0)
           in comprehension
                (\<lambda>f. if b_seq_len B = 0 then Inl ZeroDivisionError
                      else comprehension (Batch_window B f) (py_range 0 (L div b_seq_len B)))
                fields'))"

section \<open>Transform: from record lines to integer sequences\<close>

record Transform =
  t_data :: Lines
  inputs :: "string list"
  seq_len :: int

text \<open>\<^verbatim>\<open>[int(x) for x in line.strip().split(",")]\<close>\<close>

definition tokens :: "string \<Rightarrow> string list" where
  "tokens line = split_comma (strip_chars py_isspace line)"

definition parse_line :: "nat \<Rightarrow> string \<Rightarrow> exn + int list" where
  "parse_line max_str_digits line = comprehension (py_int max_str_digits) (tokens line)"

text \<open>\<^verbatim>\<open>del batch[0]\<close> followed by the parse of the remaining lines.  On a \<^verbatim>\<open>str\<close>
  (the record of a reader with \<^verbatim>\<open>group == 1\<close>) the deletion raises
  \<^verbatim>\<open>TypeError\<close>, on an empty list \<^verbatim>\<open>IndexError\<close>.\<close>

definition parse_record :: "nat \<Rightarrow> record_item \<Rightarrow> exn + int list list" where
  "parse_record max_str_digits batch =
     (case batch of
        Line s \<Rightarrow> Inl TypeError
      | Group [] \<Rightarrow> Inl IndexError
      | Group (marker # ls) \<Rightarrow> comprehension (parse_line max_str_digits) ls)"

text \<open>
  \<^verbatim>\<open>Transform.__getitem__\<close> with an integer index: all lines are parsed first, then
  every integer sequence is handed to \<^verbatim>\<open>torch.tensor\<close>.  That function is library
  code; \<open>tensor\<close> stands for it, and \<open>max_str_digits\<close> for the interpreter's digit limit.
\<close>

definition Transform_getitem_int ::
  "nat \<Rightarrow> (int list \<Rightarrow> exn + 't) \<Rightarrow> Transform \<Rightarrow> int \<Rightarrow> exn + 't list" where
  "Transform_getitem_int max_str_digits tensor T index' =
     (case Lines_getitem_int (t_data T) index' of
        Inl e \<Rightarrow> Inl e
      | Inr batch \<Rightarrow>
          (case parse_record max_str_digits batch of
             Inl e \<Rightarrow> Inl e
           | Inr items \<Rightarrow> comprehension tensor items))"

text \<open>\<^verbatim>\<open>Transform.__getitem__\<close> with a slice.\<close>

definition Transform_getitem_slice ::
  "nat \<Rightarrow> Transform \<Rightarrow> int option \<Rightarrow> int option \<Rightarrow> exn + Batch" where
  "Transform_getitem_slice max_str_digits T start stop =
     (case Lines_getitem_slice (t_data T) start stop of
        Inl e \<Rightarrow> Inl e
      | Inr batch \<Rightarrow>
          (case comprehension (parse_record max_str_digits) batch of
             Inl e \<Rightarrow> Inl e
           | Inr items \<Rightarrow> Inr (transform_batch items (inputs T) (seq_len T))))"

text \<open>
  \<^verbatim>\<open>torch.tensor\<close> on a list of Python integers builds a tensor of signed 64-bit
  integers: it keeps the integers of that range and raises \<^verbatim>\<open>RuntimeError\<close> (overflow)
  when one lies outside.
\<close>

definition int64_tensor :: "int list \<Rightarrow> exn + int list" where
  "int64_tensor xs =
     (if list_all (\<lambda>v. - (2 ^ 63) \<le> v \<and> v < 2 ^ 63) xs then Inr xs else Inl RuntimeError)"

text \<open>
  What an integer token is, stated apart from the scanner of \<^verbatim>\<open>int\<close>: around the
  token white space is allowed, then an optional sign, then groups of decimal digits
  joined by single underscores, each group with at least one digit, and no more digits
  than the interpreter allows.  Its value is the value of the digits in positional
  notation, negated after a minus sign.
\<close>

fun split_at :: "char \<Rightarrow> string \<Rightarrow> string list" where
  "split_at x [] = [[]]"
| "split_at x (c # cs) =
     (if c = x then [] # split_at x cs
      else (case split_at x cs of t # ts \<Rightarrow> (c # t) # ts | [] \<Rightarrow> [[c]]))"

definition literal_body :: "string \<Rightarrow> string" where
  "literal_body tok =
     (case strip_chars int_isspace tok of
        [] \<Rightarrow> []
      | c # r \<Rightarrow> if c = CHR ''+'' \<or> c = CHR ''-'' then r else c # r)"

definition integer_literal :: "nat \<Rightarrow> string \<Rightarrow> bool" where
  "integer_literal max_str_digits tok =
     (let groups = split_at (CHR ''_'') (literal_body tok);
          n = length (concat groups)
      in list_all (\<lambda>g. g \<noteq> [] \<and> list_all is_digit g) groups
         \<and> (n \<le> 640 \<or> max_str_digits = 0 \<or> n \<le> max_str_digits))"

definition decimal_value :: "string \<Rightarrow> int" where
  "decimal_value ds =
     (\<Sum>i<length ds. (int (of_char (ds ! i)) - 48) * 10 ^ (length ds - Suc i))"

definition literal_value :: "string \<Rightarrow> int" where
  "literal_value tok =
     (let v = decimal_value (concat (split_at (CHR ''_'') (literal_body tok)))
      in case strip_chars int_isspace tok of
           [] \<Rightarrow> v
         | c # r \<Rightarrow> if c = CHR ''-'' then - v else v)"

text \<open>The lines of record \<open>i\<close> as the reader returns them.\<close>

definition record_lines :: "Lines \<Rightarrow> int \<Rightarrow> string list" where
  "record_lines L i = (case fetch L i of Line s \<Rightarrow> [s] | Group ls \<Rightarrow> ls)"

section \<open>Iterator: ordering, production and delivery\<close>

text \<open>
  The iterator is generic in its sources and in what they return.  A Python value handled by
  it is an opaque object or a list of values; \<^verbatim>\<open>[data] + label\<close> and the lists built by
  the comprehensions are \<open>PyList\<close>s.
\<close>

datatype 'a pyval = Obj 'a | PyList "'a pyval list"

text \<open>
  A data or label source, by the operations the iterator uses on it: \<^verbatim>\<open>len(src)\<close>,
  \<^verbatim>\<open>src[i]\<close>, \<^verbatim>\<open>src[a:b]\<close>, and \<^verbatim>\<open>src(a, b)\<close> when \<^verbatim>\<open>callable(src)\<close>
  (\<open>call\<close> is \<open>None\<close> for a source that is not callable).  Each may raise.
\<close>

record 'a source =
  src_len :: "exn + int"
  getitem :: "int \<Rightarrow> exn + 'a pyval"
  getslice :: "int \<Rightarrow> int \<Rightarrow> exn + 'a pyval"
  call :: "(int \<Rightarrow> int \<Rightarrow> exn + 'a pyval) option"

text \<open>
  The state of an iterator.  \<open>thread\<close> tells whether the worker thread has been started.
  The worker and the consumer share only the queue, which is first-in first-out with one
  producer and one consumer; \<open>queue\<close> holds, in the order of the \<^verbatim>\<open>put\<close> calls, the
  entries the worker has put or will put and the consumer has not taken yet.  The bound of 8
  entries delays the worker and changes neither the entries nor their order.  An entry is a
  value or an exception object.
\<close>

record 'a Iterator =
  data :: "'a source"
  label :: "'a source list"
  prefetch :: bool
  batch_size :: "int option"
  queue :: "(exn + 'a pyval) list"
  length_it :: int
  transform :: "('a pyval \<Rightarrow> exn + 'a pyval) option"
  index :: "int list"
  full_index :: "int list option"
  thread :: bool
  pos :: int

text \<open>\<^verbatim>\<open>math.ceil(a / b)\<close> for \<open>b \<noteq> 0\<close>, on the integers (the rounding of the floating
  point quotient of very large numbers is not modelled).\<close>

definition ceil_div :: "int \<Rightarrow> int \<Rightarrow> int" where
  "ceil_div a b = - ((- a) div b)"

text \<open>\<^verbatim>\<open>len(self)\<close>: \<^verbatim>\<open>__len__\<close>, then the check of the built-in \<^verbatim>\<open>len\<close>.\<close>

definition Iterator_len :: "'a Iterator \<Rightarrow> exn + int" where
  "Iterator_len it =
     (case (case batch_size it of
              None \<Rightarrow> Inr (length_it it)
            | Some bs \<Rightarrow> if bs = 0 then Inl ZeroDivisionError
                         else Inr (ceil_div (length_it it) bs)) of
        Inl e \<Rightarrow> Inl e
      | Inr n \<Rightarrow> if n < 0 then Inl ValueError else Inr n)"

text \<open>\<^verbatim>\<open>all(self.length == len(lab) for lab in label)\<close>, left to right, stopping at the
  first label of another length.\<close>

fun same_lengths :: "int \<Rightarrow> 'a source list \<Rightarrow> exn + bool" where
  "same_lengths n [] = Inr True"
| "same_lengths n (lab # labs) =
     (case src_len lab of
        Inl e \<Rightarrow> Inl e
      | Inr m \<Rightarrow> if n = m then same_lengths n labs else Inr False)"

text \<open>
  \<^verbatim>\<open>Iterator.__init__\<close>.  \<open>shuffle_index\<close> and \<open>shuffle_full\<close> stand for the two calls of
  \<^verbatim>\<open>random.shuffle\<close>: each maps a list to the rearrangement drawn for it.
\<close>

definition Iterator_init ::
  "'a source \<Rightarrow> 'a source list \<Rightarrow> bool \<Rightarrow> int option \<Rightarrow> int option
   \<Rightarrow> ('a pyval \<Rightarrow> exn + 'a pyval) option \<Rightarrow> bool \<Rightarrow> bool
   \<Rightarrow> (int list \<Rightarrow> int list) \<Rightarrow> (int list \<Rightarrow> int list) \<Rightarrow> exn + 'a Iterator" where
  "Iterator_init data' label' prefetch' length' batch_size' transform' shuffle full_shuffle
       shuffle_index shuffle_full =
     (case (case length' of Some l \<Rightarrow> Inr l | None \<Rightarrow> src_len data') of
        Inl e \<Rightarrow> Inl e
      | Inr len \<Rightarrow>
          (let it0 = \<lparr>data = data', label = label', prefetch = prefetch',
                      batch_size = batch_size', queue = [], length_it = len,
                      transform = transform', index = [], full_index = None,
                      thread = False, pos = 0\<rparr>
           in case same_lengths len label' of
                Inl e \<Rightarrow> Inl e
              | Inr False \<Rightarrow> Inl AssertionError
              | Inr True \<Rightarrow>
                  (case Iterator_len it0 of
                     Inl e \<Rightarrow> Inl e
                   | Inr n \<Rightarrow>
                       Inr (it0\<lparr>index := (if shuffle then shuffle_index (py_range 0 n)
                                           else py_range 0 n),
                                 full_index := (if full_shuffle
                                                then Some (shuffle_full (py_range 0 len))
                                                else None)\<rparr>))))"

text \<open>The queued item: \<^verbatim>\<open>[data] + label\<close> when there are labels, the bare data
  otherwise.\<close>

definition compose_item :: "'a pyval \<Rightarrow> 'a pyval list \<Rightarrow> 'a pyval" where
  "compose_item d labs = (if labs \<noteq> [] then PyList (d # labs) else d)"

text \<open>The loop body of the path without batches (lines 225 to 230), up to the item it
  puts.\<close>

definition element_step :: "'a Iterator \<Rightarrow> int \<Rightarrow> exn + 'a pyval" where
  "element_step it i =
     (case getitem (data it) i of
        Inl e \<Rightarrow> Inl e
      | Inr d \<Rightarrow>
          (case comprehension (\<lambda>lab. getitem lab i) (label it) of
             Inl e \<Rightarrow> Inl e
           | Inr labs \<Rightarrow> Inr (compose_item d labs)))"

text \<open>\<^verbatim>\<open>self.transform(batch)\<close> when a transform is present, as the full-shuffle path
  applies it to a list of fetched elements.\<close>

definition apply_transform :: "'a Iterator \<Rightarrow> 'a pyval list \<Rightarrow> exn + 'a pyval" where
  "apply_transform it elems =
     (case transform it of None \<Rightarrow> Inr (PyList elems) | Some f \<Rightarrow> f (PyList elems))"

text \<open>The loop body of the full-shuffle path (lines 245 to 262); \<open>fi\<close> is
  \<^verbatim>\<open>self.full_index\<close>.  \<^verbatim>\<open>i * bs\<close> raises \<^verbatim>\<open>TypeError\<close> when the batch size is
  \<^verbatim>\<open>None\<close>.\<close>

definition full_shuffle_step :: "'a Iterator \<Rightarrow> int list \<Rightarrow> int \<Rightarrow> exn + 'a pyval" where
  "full_shuffle_step it fi i =
     (case batch_size it of
        None \<Rightarrow> Inl TypeError
      | Some bs \<Rightarrow>
          (let inds = py_slice fi (i * bs) ((i + 1) * bs)
           in case comprehension (getitem (data it)) inds of
                Inl e \<Rightarrow> Inl e
              | Inr elems \<Rightarrow>
                  (case apply_transform it elems of
                     Inl e \<Rightarrow> Inl e
                   | Inr data_batch \<Rightarrow>
                       (case comprehension
                               (\<lambda>lab. case comprehension (getitem lab) inds of
                                         Inl e \<Rightarrow> Inl e
                                       | Inr ls \<Rightarrow> apply_transform it ls)
                               (label it) of
                          Inl e \<Rightarrow> Inl e
                        | Inr label_batch \<Rightarrow> Inr (compose_item data_batch label_batch)))))"

text \<open>\<^verbatim>\<open>xs[i]\<close> on a list.\<close>

definition py_index :: "'b list \<Rightarrow> int \<Rightarrow> exn + 'b" where
  "py_index xs i =
     (let n = int (length xs); j = (if i < 0 then i + n else i)
      in if 0 \<le> j \<and> j < n then Inr (xs ! nat j) else Inl IndexError)"

text \<open>\<^verbatim>\<open>src(a, b) if callable(src) else src[a:b]\<close>\<close>

definition fetch_range :: "'a source \<Rightarrow> int \<Rightarrow> int \<Rightarrow> exn + 'a pyval" where
  "fetch_range s a b = (case call s of Some f \<Rightarrow> f a b | None \<Rightarrow> getslice s a b)"

text \<open>The loop body of the path of contiguous batches (lines 277 to 296).\<close>

definition slice_step :: "'a Iterator \<Rightarrow> int \<Rightarrow> exn + 'a pyval" where
  "slice_step it i =
     (case py_index (index it) i of
        Inl e \<Rightarrow> Inl e
      | Inr ix \<Rightarrow>
          (case batch_size it of
             None \<Rightarrow> Inl TypeError
           | Some bs \<Rightarrow>
               (case fetch_range (data it) (ix * bs) ((ix + 1) * bs) of
                  Inl e \<Rightarrow> Inl e
                | Inr data_batch \<Rightarrow>
                    (case comprehension (\<lambda>lab. fetch_range lab (ix * bs) ((ix + 1) * bs))
                            (label it) of
                       Inl e \<Rightarrow> Inl e
                     | Inr label_batch \<Rightarrow> Inr (compose_item data_batch label_batch)))))"

text \<open>
  How a call of \<^verbatim>\<open>produce\<close> leaves a loop: the loop ran to its end, the function returned
  from inside it, or an exception left the function.
\<close>

datatype loop_exit = Completed | Returned | Raised exn

text \<open>
  The three loops of \<^verbatim>\<open>produce\<close> differ in the body only: the item of the body is put
  on the queue and a synchronous call (\<^verbatim>\<open>daemon\<close> false) returns after the first put;
  an exception of the body is put on the queue by the worker, which then returns, and is
  raised again by a synchronous call.  The result is the list of the entries put, in order,
  and the way the loop was left.
\<close>

fun produce_loop ::
  "bool \<Rightarrow> (int \<Rightarrow> exn + 'v) \<Rightarrow> int list \<Rightarrow> (exn + 'v) list \<times> loop_exit" where
  "produce_loop daemon step [] = ([], Completed)"
| "produce_loop daemon step (i # is) =
     (case step i of
        Inl e \<Rightarrow> if daemon then ([Inl e], Returned) else ([], Raised e)
      | Inr v \<Rightarrow>
          if \<not> daemon then ([Inr v], Returned)
          else (case produce_loop daemon step is of (q, r) \<Rightarrow> (Inr v # q, r)))"

text \<open>\<^verbatim>\<open>if self.full_index:\<close> chooses the body: a list that is not empty is true.\<close>

definition batched_step :: "'a Iterator \<Rightarrow> int \<Rightarrow> exn + 'a pyval" where
  "batched_step it =
     (case full_index it of
        Some (j # js) \<Rightarrow> full_shuffle_step it (j # js)
      | _ \<Rightarrow> slice_step it)"

text \<open>Lines 242 to 306, entered with \<^verbatim>\<open>self.pos\<close> read as \<open>p\<close>.  \<^verbatim>\<open>len(self)\<close> is
  evaluated outside the \<^verbatim>\<open>try\<close>.\<close>

definition produce_batched ::
  "'a Iterator \<Rightarrow> bool \<Rightarrow> int \<Rightarrow> (exn + 'a pyval) list \<times> loop_exit" where
  "produce_batched it daemon p =
     (case Iterator_len it of
        Inl e \<Rightarrow> ([], Raised e)
      | Inr n \<Rightarrow> produce_loop daemon (batched_step it) (py_range p n))"

text \<open>
  \<^verbatim>\<open>Iterator.produce\<close>.  Without a batch size the first loop has no \<^verbatim>\<open>return\<close> after
  it, so a call whose first loop runs to its end goes on to line 242.  The worker reads
  \<^verbatim>\<open>self.pos\<close> again there, while the consumer advances it: \<open>late_pos\<close> is the value it
  reads (a synchronous call reads the unchanged position).
\<close>

definition produce ::
  "'a Iterator \<Rightarrow> bool \<Rightarrow> int \<Rightarrow> (exn + 'a pyval) list \<times> loop_exit" where
  "produce it daemon late_pos =
     (case batch_size it of
        None \<Rightarrow>
          (case produce_loop daemon (element_step it) (py_range (pos it) (length_it it)) of
             (q, Completed) \<Rightarrow>
               (case produce_batched it daemon (if daemon then late_pos else pos it) of
                  (q', r) \<Rightarrow> (q @ q', r))
           | (q, r) \<Rightarrow> (q, r))
      | Some bs \<Rightarrow> produce_batched it daemon (pos it))"

text \<open>
  What a call of \<^verbatim>\<open>__next__\<close> does for its caller: it returns an item, raises, or never
  comes back from \<^verbatim>\<open>queue.get()\<close> because the queue is empty and nothing will be put.
\<close>

datatype 'v outcome = Return 'v | Raise exn | Blocked

text \<open>
  \<^verbatim>\<open>Iterator.__next__\<close>.  Starting the worker adds the entries it puts to the queue of
  the model.  A synchronous \<^verbatim>\<open>produce(False)\<close> that raises leaves \<^verbatim>\<open>__next__\<close> with
  its exception.
\<close>

definition Iterator_next :: "'a Iterator \<Rightarrow> int \<Rightarrow> 'a pyval outcome \<times> 'a Iterator" where
  "Iterator_next it late_pos =
     (let it1 = (if \<not> thread it \<and> prefetch it
                 then it\<lparr>thread := True, queue := queue it @ fst (produce it True late_pos)\<rparr>
                 else it)
      in if pos it1 \<ge> int (length (index it1)) then (Raise StopIteration, it1)
         else
           (let (q, r) = (if \<not> prefetch it1 then produce it1 False (pos it1)
                          else ([], Returned));
                it2 = it1\<lparr>queue := queue it1 @ q\<rparr>
            in case r of
                 Raised e \<Rightarrow> (Raise e, it2)
               | _ \<Rightarrow>
                   (case queue it2 of
                      [] \<Rightarrow> (Blocked, it2)
                    | Inl e # rest \<Rightarrow> (Raise e, it2\<lparr>queue := rest\<rparr>)
                    | Inr item # rest \<Rightarrow>
                        (Return item, it2\<lparr>queue := rest, pos := pos it2 + 1\<rparr>))))"

text \<open>\<open>k\<close> successive calls of \<^verbatim>\<open>__next__\<close>: their outcomes and the state left.\<close>

fun next_n :: "nat \<Rightarrow> 'a Iterator \<Rightarrow> int \<Rightarrow> 'a pyval outcome list \<times> 'a Iterator" where
  "next_n 0 it late_pos = ([], it)"
| "next_n (Suc k) it late_pos =
     (case Iterator_next it late_pos of
        (r, it') \<Rightarrow> (case next_n k it' late_pos of (rs, it'') \<Rightarrow> (r # rs, it'')))"

text \<open>The body and the end of the loop that \<^verbatim>\<open>produce\<close> runs first, by the mode of the
  iterator.\<close>

definition production_step :: "'a Iterator \<Rightarrow> int \<Rightarrow> exn + 'a pyval" where
  "production_step it =
     (case batch_size it of None \<Rightarrow> element_step it | Some bs \<Rightarrow> batched_step it)"

definition production_end :: "'a Iterator \<Rightarrow> exn + int" where
  "production_end it =
     (case batch_size it of None \<Rightarrow> Inr (length_it it) | Some bs \<Rightarrow> Iterator_len it)"

text \<open>A source of three elements, used to run the iterator on.\<close>

definition tens :: "nat source" where
  "tens = \<lparr>src_len = Inr 3,
            getitem = (\<lambda>i. if 0 \<le> i \<and> i < 3 then Inr (Obj (nat i * 10)) else Inl IndexError),
            getslice = (\<lambda>a b. Inr (PyList (map (\<lambda>i. Obj (nat i * 10)) (py_slice [0, 1, 2] a b)))),
            call = None\<rparr>"

text \<open>A source of three elements whose third element cannot be read.\<close>

definition flaky :: "nat source" where
  "flaky = \<lparr>src_len = Inr 3,
             getitem = (\<lambda>i. if 0 \<le> i \<and> i < 2 then Inr (Obj (nat i * 10)) else Inl OSError),
             getslice = (\<lambda>a b. Inl OSError),
             call = None\<rparr>"

text \<open>The file of the specification's scenario, without its third record and without a
  line terminator at its end.\<close>

definition two_records :: string where
  "two_records = ''2'' @ [CHR 0x0A] @ ''1,2'' @ [CHR 0x0A] @ ''3'' @ [CHR 0x0A] @ ''4,5,6''"

section \<open>Properties of Lines\<close>

lemma Lines_init_three_lines:
  "Lines_init False (Some three_lines) 0 1 False =
     Inr \<lparr>file_lines = [[CHR ''a'', CHR 0x0A], [CHR ''b'', CHR 0x0A], [CHR ''c'', CHR 0x0A]],
          length_l = 3, skip = 0, group = 1, preserve_newline = False\<rparr>"
  by (simp add: Lines_init_def wc_l_def three_lines_def linecache_getlines_def readlines_def)

text \<open>Scalar access inside \<open>[0, count)\<close> returns the record, and an index at or beyond
  \<open>count\<close> raises \<^verbatim>\<open>IndexError\<close>.\<close>

lemma Lines_getitem_int_in_range:
  "0 \<le> i \<Longrightarrow> i < length_l L \<Longrightarrow> Lines_getitem_int L i = Inr (fetch L i)"
  by (simp add: Lines_getitem_int_def Lines_len_def)

lemma Lines_getitem_int_beyond_count:
  "0 \<le> length_l L \<Longrightarrow> length_l L \<le> i \<Longrightarrow> Lines_getitem_int L i = Inl IndexError"
  by (simp add: Lines_getitem_int_def Lines_len_def)

text \<open>The only test of the integer branch is \<^verbatim>\<open>item < len(self)\<close>, so a negative index
  is read like a valid one: the line numbers it computes lie before the record area.\<close>

lemma Lines_getitem_int_negative:
  "0 \<le> length_l L \<Longrightarrow> i < 0 \<Longrightarrow> Lines_getitem_int L i = Inr (fetch L i)"
  by (simp add: Lines_getitem_int_def Lines_len_def)

lemma fetch_group:
  "group L \<noteq> 1 \<Longrightarrow> \<not> preserve_newline L \<Longrightarrow>
   fetch L i =
     Group (map (\<lambda>k. strip_chars is_crlf
                        (linecache_getline (file_lines L) (skip L + i * group L + 1 + k)))
                (py_range 0 (group L)))"
  by (simp add: fetch_def Let_def add.assoc add.commute)

text \<open>
  Claim C3 (get): for \<open>0 \<le> i < count\<close> \<^verbatim>\<open>get(i)\<close> returns the record, and for every
  other integer, the negative ones included, it fails with \<^verbatim>\<open>IndexError\<close>.
  The code does not do the second part for negative indices: on a file of three lines
  (\<open>skip = 0\<close>, \<open>group = 1\<close>, so \<open>count = 3\<close>) \<^verbatim>\<open>get(-1)\<close> returns the empty
  string instead of raising.
\<close>

theorem C3_negative_index_returns:
  "(case Lines_init False (Some three_lines) 0 1 False of
      Inl e \<Rightarrow> Inl e
    | Inr L \<Rightarrow> Lines_getitem_int L (- 1)) = Inr (Line [])"
  by (simp add: Lines_init_three_lines Lines_getitem_int_def Lines_len_def fetch_def
      linecache_getline_def strip_chars_def)

text \<open>When the reader is not empty and the lower bound is absent or below \<open>count\<close>, the
  slice is the list of the records of the array-slice range.\<close>

lemma Lines_getitem_slice_normalized:
  assumes "0 < length_l L"
    and "case lo of None \<Rightarrow> True | Some s \<Rightarrow> s < length_l L"
  shows "Lines_getitem_slice L lo hi =
           Inr (map (fetch L) (normalized_range (length_l L) lo hi))"
  using assms
  by (auto simp add: Lines_getitem_slice_def Lines_len_def normalized_range_def
      slice_bound_def clip_def Let_def py_range_def split: option.splits)

text \<open>On a reader without records the same clipping makes the lower bound \<open>-1\<close>:
  every slice returns one record, read at index \<open>-1\<close>.\<close>

lemma Lines_getitem_slice_empty_reader:
  "length_l L = 0 \<Longrightarrow> Lines_getitem_slice L lo hi = Inr [fetch L (- 1)]"
  by (simp add: Lines_getitem_slice_def Lines_len_def clip_def py_range_def Let_def
      split: option.splits)

text \<open>
  Claim C2 (slice): \<^verbatim>\<open>slice(lo, hi)\<close> is \<^verbatim>\<open>[get(i) for i in normalizedRange(lo, hi)]\<close>
  with both ends clamped into \<open>[0, count]\<close>.
  The code clamps the lower end into \<open>[0, count - 1]\<close>: on a file of three lines
  \<^verbatim>\<open>slice(3, None)\<close> returns the last record, where the array-slice range is empty.
\<close>

theorem C2_slice_from_count_returns_last:
  "(case Lines_init False (Some three_lines) 0 1 False of
      Inl e \<Rightarrow> Inl e
    | Inr L \<Rightarrow> Lines_getitem_slice L (Some 3) None) = Inr [Line ''c'']
   \<and> normalized_range 3 (Some 3) None = []"
proof -
  have "Lines_getitem_slice
          \<lparr>file_lines = [[CHR ''a'', CHR 0x0A], [CHR ''b'', CHR 0x0A], [CHR ''c'', CHR 0x0A]],
             length_l = 3, skip = 0, group = 1,
             preserve_newline = False\<rparr> (Some 3) None = Inr [Line ''c'']"
    by (simp add: Lines_getitem_slice_def Lines_len_def fetch_def linecache_getline_def
        strip_chars_def clip_def py_range_def is_crlf_def upto.simps)
  moreover have "normalized_range 3 (Some 3) None = []"
    by (simp add: normalized_range_def slice_bound_def py_range_def)
  ultimately show ?thesis
    by (simp add: Lines_init_three_lines)
qed

section \<open>Properties of the batch assembly\<close>

lemma length_le_max_len: "xs \<in> set xss \<Longrightarrow> length xs \<le> max_len xss"
  by (induction xss) (auto simp: max_len_def)

lemma max_len_Max: "xss \<noteq> [] \<Longrightarrow> max_len xss = Max (set (map length xss))"
proof (induction xss)
  case Nil
  then show ?case by simp
next
  case (Cons xs xss)
  show ?case
  proof (cases "xss = []")
    case True
    then show ?thesis by (simp add: max_len_def)
  next
    case False
    with Cons have "max_len xss = Max (set (map length xss))" by simp
    moreover have "max_len (xs # xss) = max (length xs) (max_len xss)"
      by (simp add: max_len_def)
    ultimately show ?thesis using False by (simp add: Max_insert)
  qed
qed

lemma min_len_le_length: "xs \<in> set xss \<Longrightarrow> min_len xss \<le> length xs"
  by (induction xss rule: min_len.induct) auto

lemma length_zip_star: "length (zip_star xss) = min_len xss"
  by (simp add: zip_star_def)

lemma nth_zip_star: "f < min_len xss \<Longrightarrow> zip_star xss ! f = map (\<lambda>u. u ! f) xss"
  by (simp add: zip_star_def)

lemma size1_pad_sequence: "size1 (pad_sequence seqs v) = max_len seqs"
  by (simp add: pad_sequence_def Let_def)

lemma rows_pad_sequence:
  "rows (pad_sequence seqs v) = map (\<lambda>s. s @ replicate (max_len seqs - length s) v) seqs"
  by (simp add: pad_sequence_def Let_def)

lemma length_row_pad_sequence:
  "row \<in> set (rows (pad_sequence seqs v)) \<Longrightarrow> length row = max_len seqs"
  by (auto simp: rows_pad_sequence dest: length_le_max_len)

lemma b_data_transform_batch:
  "b_data (transform_batch batch fs sl) = map (\<lambda>item. pad_sequence item (- 1)) (zip_star batch)"
  by (simp add: transform_batch_def Batch_init_def)

lemma nth_b_data_transform_batch:
  "f < min_len batch \<Longrightarrow>
   b_data (transform_batch batch fs sl) ! f = pad_sequence (map (\<lambda>u. u ! f) batch) (- 1)"
  by (simp add: b_data_transform_batch length_zip_star nth_zip_star)

text \<open>
  Claim C5 (padding law): for a batch whose field \<open>f\<close> has the sequence lengths
  \<open>l\<^sub>1 .. l\<^sub>n\<close>, the matrix of the field has \<open>n\<close> rows and the width
  \<open>max (l\<^sub>1 .. l\<^sub>n)\<close>; the cell in row \<open>r\<close> and column \<open>c\<close> is the original value
  when \<open>c < l\<^sub>r\<close> and the sentinel \<open>-1\<close> otherwise.
\<close>

theorem C5_padding_law:
  assumes "f < min_len batch" and "r < length batch"
    and "c < size1 (b_data (transform_batch batch fs sl) ! f)"
  shows "size0 (b_data (transform_batch batch fs sl) ! f) = length batch
       \<and> size1 (b_data (transform_batch batch fs sl) ! f)
           = Max (set (map (\<lambda>u. length (u ! f)) batch))
       \<and> length (rows (b_data (transform_batch batch fs sl) ! f) ! r)
           = size1 (b_data (transform_batch batch fs sl) ! f)
       \<and> rows (b_data (transform_batch batch fs sl) ! f) ! r ! c
           = (if c < length (batch ! r ! f) then batch ! r ! f ! c else - 1)"
proof -
  let ?seqs = "map (\<lambda>u. u ! f) batch"
  let ?M = "b_data (transform_batch batch fs sl) ! f"
  have M: "?M = pad_sequence ?seqs (- 1)"
    using assms(1) by (rule nth_b_data_transform_batch)
  have ne: "?seqs \<noteq> []" using assms(2) by auto
  have w: "size1 ?M = max_len ?seqs" by (simp add: M size1_pad_sequence)
  have "max_len ?seqs = Max (set (map length ?seqs))" using ne by (rule max_len_Max)
  then have w': "size1 ?M = Max (set (map (\<lambda>u. length (u ! f)) batch))"
    using w by (simp add: comp_def)
  have rw: "rows ?M ! r = batch ! r ! f @ replicate (max_len ?seqs - length (batch ! r ! f)) (- 1)"
    using assms(2) by (simp add: M rows_pad_sequence)
  have le: "length (batch ! r ! f) \<le> max_len ?seqs"
  proof -
    have "batch ! r \<in> set batch" using assms(2) by simp
    then have "batch ! r ! f \<in> set ?seqs" by simp
    then show ?thesis by (rule length_le_max_len)
  qed
  have len: "length (rows ?M ! r) = size1 ?M"
    using le by (simp add: rw w)
  have cell: "rows ?M ! r ! c = (if c < length (batch ! r ! f) then batch ! r ! f ! c else - 1)"
    using assms(3) le unfolding rw w by (simp add: nth_append)
  have "size0 ?M = length batch" by (simp add: M size0_def rows_pad_sequence)
  with w' len cell show ?thesis by blast
qed

theorem C5_padding_law_witness:
  "(0::nat) < min_len [[[1, 2]], [[4, 5, 6::int]]] \<and> (0::nat) < length [[[1, 2]], [[4, 5, 6::int]]]
   \<and> rows (b_data (transform_batch [[[1, 2]], [[4, 5, 6]]] [''q''] 2) ! 0) ! 0 ! 2 = - 1
   \<and> size1 (b_data (transform_batch [[[1, 2]], [[4, 5, 6]]] [''q''] 2) ! 0) = 3"
proof -
  have w: "size1 (b_data (transform_batch [[[1, 2]], [[4, 5, 6]]] [''q''] 2) ! 0) = 3"
    by (simp add: transform_batch_def Batch_init_def zip_star_def pad_sequence_def max_len_def)
  have "(2::nat) < size1 (b_data (transform_batch [[[1, 2]], [[4, 5, 6]]] [''q''] 2) ! 0)"
    by (simp add: w)
  from C5_padding_law [of 0 "[[[1, 2]], [[4, 5, 6]]]" 0 2 "[''q'']" 2, OF _ _ this] w
  show ?thesis by simp
qed

lemma max_len_cong: "map length xss = map length yss \<Longrightarrow> max_len xss = max_len yss"
proof (induction xss arbitrary: yss)
  case Nil
  then show ?case by (simp add: max_len_def)
next
  case (Cons xs xss)
  then obtain ys yss' where y: "yss = ys # yss'" by (cases yss) auto
  with Cons.prems have "length xs = length ys" "map length xss = map length yss'" by simp_all
  with Cons.IH [of yss'] show ?case by (simp add: max_len_def y)
qed

text \<open>
  Claim C9 as stated (all arrays of a batch have the same column count, for every input)
  fails: every field is padded to its own longest sequence.  One record whose two fields
  have the lengths 2 and 1 gives matrices of the widths 2 and 1.
\<close>

theorem C9_counterexample:
  "b_data (transform_batch [[[1, 2], [3]]] [''q'', ''s''] 2) = [Tensor2 2 [[1, 2]], Tensor2 1 [[3]]]
   \<and> size1 (Tensor2 2 [[1, 2]]) \<noteq> size1 (Tensor2 1 [[3]])"
  by (simp add: transform_batch_def Batch_init_def zip_star_def pad_sequence_def max_len_def)

lemma in_b_data_transform_batch:
  assumes "M \<in> set (b_data (transform_batch batch fs sl))"
  obtains f where "f < min_len batch" and "M = pad_sequence (map (\<lambda>u. u ! f) batch) (- 1)"
proof -
  from assms obtain f where "f < length (b_data (transform_batch batch fs sl))"
    and "M = b_data (transform_batch batch fs sl) ! f"
    by (auto simp: in_set_conv_nth)
  then have "f < min_len batch" and "M = pad_sequence (map (\<lambda>u. u ! f) batch) (- 1)"
    by (simp_all add: b_data_transform_batch length_zip_star nth_zip_star)
  then show ?thesis by (rule that)
qed

lemma uniform_widths:
  assumes u: "\<forall>u\<in>set batch. \<forall>s\<in>set u. \<forall>s'\<in>set u. length s = length s'"
    and f: "f < min_len batch" and g: "g < min_len batch"
  shows "max_len (map (\<lambda>u. u ! f) batch) = max_len (map (\<lambda>u. u ! g) batch)"
proof (rule max_len_cong)
  have "length (v ! f) = length (v ! g)" if "v \<in> set batch" for v
  proof -
    have "min_len batch \<le> length v" using that by (rule min_len_le_length)
    then have "v ! f \<in> set v" "v ! g \<in> set v" using f g by simp_all
    with u that show ?thesis by blast
  qed
  then show "map length (map (\<lambda>u. u ! f) batch) = map length (map (\<lambda>u. u ! g) batch)"
    by simp
qed

text \<open>
  Claim C9, amended: every array of a constructed batch has as many rows as the batch has
  records, and all its rows have the array's column count; the column count of a field is
  the length of the longest sequence of that field; and when in every record all field
  sequences have the same length, all arrays of the batch have the same column count.
\<close>

theorem C9_batch_extents:
  "(\<forall>M\<in>set (b_data (transform_batch batch fs sl)).
      size0 M = length batch \<and> (\<forall>row\<in>set (rows M). length row = size1 M))
   \<and> (\<forall>f<min_len batch.
        size1 (b_data (transform_batch batch fs sl) ! f) = max_len (map (\<lambda>u. u ! f) batch))
   \<and> ((\<forall>u\<in>set batch. \<forall>s\<in>set u. \<forall>s'\<in>set u. length s = length s') \<longrightarrow>
        (\<forall>M\<in>set (b_data (transform_batch batch fs sl)).
           \<forall>M'\<in>set (b_data (transform_batch batch fs sl)). size1 M = size1 M'))"
proof (intro conjI ballI allI impI)
  fix M assume "M \<in> set (b_data (transform_batch batch fs sl))"
  then obtain f where "M = pad_sequence (map (\<lambda>u. u ! f) batch) (- 1)"
    by (rule in_b_data_transform_batch)
  then show "size0 M = length batch" by (simp add: size0_def rows_pad_sequence)
next
  fix M row assume m: "M \<in> set (b_data (transform_batch batch fs sl))" and r: "row \<in> set (rows M)"
  from m obtain f where M: "M = pad_sequence (map (\<lambda>u. u ! f) batch) (- 1)"
    by (rule in_b_data_transform_batch)
  with r show "length row = size1 M"
    by (simp add: size1_pad_sequence length_row_pad_sequence)
next
  fix f assume "f < min_len batch"
  then show "size1 (b_data (transform_batch batch fs sl) ! f) = max_len (map (\<lambda>u. u ! f) batch)"
    by (simp add: nth_b_data_transform_batch size1_pad_sequence)
next
  fix M M'
  assume u: "\<forall>u\<in>set batch. \<forall>s\<in>set u. \<forall>s'\<in>set u. length s = length s'"
    and m: "M \<in> set (b_data (transform_batch batch fs sl))"
    and m': "M' \<in> set (b_data (transform_batch batch fs sl))"
  from m obtain f where f: "f < min_len batch" "M = pad_sequence (map (\<lambda>u. u ! f) batch) (- 1)"
    by (rule in_b_data_transform_batch)
  from m' obtain g where g: "g < min_len batch" "M' = pad_sequence (map (\<lambda>u. u ! g) batch) (- 1)"
    by (rule in_b_data_transform_batch)
  from uniform_widths [OF u f(1) g(1)] show "size1 M = size1 M'"
    by (simp add: f(2) g(2) size1_pad_sequence)
qed

theorem C9_batch_extents_witness:
  "size1 (b_data (transform_batch [[[1, 2], [7, 8]], [[4, 5, 6], [9, 9, 9]]] [''q'', ''s''] 2) ! 0)
     = size1 (b_data (transform_batch [[[1, 2], [7, 8]], [[4, 5, 6], [9, 9, 9]]] [''q'', ''s''] 2) ! 1)
   \<and> size0 (b_data (transform_batch [[[1, 2], [7, 8]], [[4, 5, 6], [9, 9, 9]]] [''q'', ''s''] 2) ! 0)
     = length [[[1, 2], [7, 8]], [[4, 5, 6], [9, 9, 9::int]]]
   \<and> b_data (transform_batch [[[1, 2], [7, 8]], [[4, 5, 6], [9, 9, 9]]] [''q'', ''s''] 2)
       = [Tensor2 3 [[1, 2, - 1], [4, 5, 6]], Tensor2 3 [[7, 8, - 1], [9, 9, 9]]]"
proof -
  define batch where "batch = [[[1, 2], [7, 8]], [[4, 5, 6], [9, 9, 9::int]]]"
  define D where "D = b_data (transform_batch batch [''q'', ''s''] 2)"
  have D: "D = [Tensor2 3 [[1, 2, - 1], [4, 5, 6]], Tensor2 3 [[7, 8, - 1], [9, 9, 9]]]"
    by (simp add: D_def batch_def transform_batch_def Batch_init_def zip_star_def
        pad_sequence_def max_len_def)
  have u: "\<forall>u\<in>set batch. \<forall>s\<in>set u. \<forall>s'\<in>set u. length s = length s'"
    by (simp add: batch_def)
  have m0: "Tensor2 3 [[1, 2, - 1], [4, 5, 6]] \<in> set D"
    and m1: "Tensor2 3 [[7, 8, - 1], [9, 9, 9]] \<in> set D"
    by (simp_all add: D)
  note th = C9_batch_extents [of batch "[''q'', ''s'']" 2, folded D_def]
  from th have a: "\<forall>M\<in>set D. size0 M = length batch \<and> (\<forall>row\<in>set (rows M). length row = size1 M)"
    by (rule conjunct1)
  from th u have b: "\<forall>M\<in>set D. \<forall>M'\<in>set D. size1 M = size1 M'"
    by blast
  from b m0 m1 have "size1 (Tensor2 3 [[1, 2, - 1], [4, 5, 6]]) = size1 (Tensor2 3 [[7, 8, - 1], [9, 9, 9]])"
    by blast
  moreover from a m0 have "size0 (Tensor2 3 [[1, 2, - 1], [4, 5, 6]]) = length batch"
    by blast
  ultimately show ?thesis using D by (simp add: D_def batch_def)
qed

lemma comprehension_all_Inr:
  "(\<And>x. x \<in> set xs \<Longrightarrow> f x = Inr (g x)) \<Longrightarrow> comprehension f xs = Inr (map g xs)"
  by (induction xs) simp_all

lemma length_py_range: "length (py_range a b) = nat (b - a)"
  by (simp add: py_range_def)

lemma py_range_0_nat: "py_range 0 (int n) = map int [0..<n]"
proof (induction n)
  case 0
  then show ?case by (simp add: py_range_def)
next
  case (Suc n)
  have "[0..int n] = [0..int n - 1] @ [int n]"
    by (simp add: upto_rec2)
  with Suc show ?case by (simp add: py_range_def)
qed

lemma slice_bound_int: "slice_bound (int n) (int k) = min k n"
  by (simp add: slice_bound_def min_def)

lemma py_slice_int:
  assumes "j \<le> k"
  shows "py_slice xs (int j) (int k) = take (k - j) (drop j xs)"
proof (cases "j \<le> length xs")
  case True
  then show ?thesis using assms
    by (cases "k \<le> length xs") (simp_all add: py_slice_def Let_def slice_bound_int min_def)
next
  case False
  then show ?thesis using assms
    by (simp add: py_slice_def Let_def slice_bound_int)
qed

lemma py_slice_nonneg:
  assumes "0 \<le> a" and "a \<le> b"
  shows "py_slice xs a b = take (nat b - nat a) (drop (nat a) xs)"
proof -
  have "nat a \<le> nat b" using assms by simp
  from py_slice_int [OF this, of xs] show ?thesis using assms by simp
qed

lemma size1_col_slice_nonneg:
  assumes "0 \<le> a" and "a \<le> b"
  shows "size1 (col_slice t a b) = min (nat b) (size1 t) - min (nat a) (size1 t)"
proof -
  have "slice_bound (int (size1 t)) (int (nat a)) = min (nat a) (size1 t)"
    and "slice_bound (int (size1 t)) (int (nat b)) = min (nat b) (size1 t)"
    by (rule slice_bound_int)+
  then show ?thesis using assms by (simp add: col_slice_def)
qed

lemma rows_col_slice_nonneg:
  assumes "0 \<le> a" and "a \<le> b"
  shows "rows (col_slice t a b) = map (\<lambda>r. take (nat b - nat a) (drop (nat a) r)) (rows t)"
  using assms by (simp add: col_slice_def py_slice_nonneg)

text \<open>
  Claim C6 as stated (\<^verbatim>\<open>Batch.get\<close> returns \<open>floor (maxLen / seqLen)\<close> windows of width
  exactly \<open>seqLen\<close>, \<open>maxLen\<close> being the width of the requested field) fails when the
  fields differ in width: the number of windows is taken from the first field.  With a first
  field of width 4, a second field of width 2 and \<open>seqLen = 2\<close>, the second field gets
  two windows, the second of them of width 0.
\<close>

theorem C6_counterexample:
  "Batch_get (transform_batch [[[1, 2, 3, 4], [5, 6]]] [''q'', ''s''] 2) [''s'']
     = Inr [[Tensor2 2 [[5, 6]], Tensor2 0 [[]]]]
   \<and> size1 (b_data (transform_batch [[[1, 2, 3, 4], [5, 6]]] [''q'', ''s''] 2) ! 1) = 2"
proof -
  have B: "transform_batch [[[1, 2, 3, 4], [5, 6]]] [''q'', ''s''] 2
      = \<lparr>b_data = [Tensor2 4 [[1, 2, 3, 4]], Tensor2 2 [[5, 6]]],
         stoi = map_of [(''s'', 1), (''q'', 0)], b_seq_len = 2\<rparr>"
    by (simp add: transform_batch_def Batch_init_def zip_star_def pad_sequence_def max_len_def)
  have r: "py_range 0 2 = [0, 1]"
    by (simp add: py_range_def upto_rec1)
  have w0: "col_slice (Tensor2 2 [[5, 6]]) 0 2 = Tensor2 2 [[5, 6]]"
    by (simp add: col_slice_def slice_bound_def py_slice_def)
  have w1: "col_slice (Tensor2 2 [[5, 6]]) 2 4 = Tensor2 0 [[]]"
    by (simp add: col_slice_def slice_bound_def py_slice_def)
  show ?thesis
    by (simp add: B Batch_get_def Batch_window_def r w0 w1)
qed

text \<open>
  Claim C6, amended: for a batch with at least one field, a positive \<open>seqLen\<close> and
  requested fields that the batch knows, \<^verbatim>\<open>Batch.get\<close> returns for every requested field
  exactly \<open>floor (W\<^sub>0 / seqLen)\<close> windows, \<open>W\<^sub>0\<close> being the width of the first field of the
  batch.  Window \<open>k\<close> of a field holds the columns \<open>[k * seqLen, (k + 1) * seqLen)\<close> of
  that field's matrix, cut at the matrix's width: its width is exactly \<open>seqLen\<close> whenever
  the matrix is at least \<open>(k + 1) * seqLen\<close> wide (so for every window of a field as wide
  as the first one).  The column range of window \<open>k\<close> is the same for every field.
\<close>

theorem C6_windows:
  assumes d: "b_data B = t0 # ts" and sl: "b_seq_len B = int n" and n: "0 < n"
    and known: "\<forall>f\<in>set fs. \<exists>j. stoi B f = Some j \<and> j < length (b_data B)"
  shows "Batch_get B fs =
           Inr (map (\<lambda>f. map (\<lambda>k. col_slice (b_data B ! the (stoi B f))
                                    (int k * int n) ((int k + 1) * int n))
                              [0..<size1 t0 div n]) fs)
       \<and> (\<forall>M k. rows (col_slice M (int k * int n) ((int k + 1) * int n))
                    = map (\<lambda>r. take n (drop (k * n) r)) (rows M)
                \<and> size1 (col_slice M (int k * int n) ((int k + 1) * int n))
                    = min ((k + 1) * n) (size1 M) - min (k * n) (size1 M)
                \<and> ((k + 1) * n \<le> size1 M \<longrightarrow>
                     size1 (col_slice M (int k * int n) ((int k + 1) * int n)) = n))"
proof (intro conjI allI)
  have r: "py_range 0 (int (size1 t0) div int n) = map int [0..<size1 t0 div n]"
    using py_range_0_nat [of "size1 t0 div n"] by (simp add: zdiv_int)
  have w: "comprehension (Batch_window B f) (map int [0..<size1 t0 div n])
        = Inr (map (\<lambda>k. col_slice (b_data B ! the (stoi B f)) (k * int n) ((k + 1) * int n))
                 (map int [0..<size1 t0 div n]))" if "f \<in> set fs" for f
  proof (rule comprehension_all_Inr)
    fix x
    from known that obtain j where "stoi B f = Some j" "j < length (b_data B)" by blast
    then show "Batch_window B f x =
        Inr (col_slice (b_data B ! the (stoi B f)) (x * int n) ((x + 1) * int n))"
      by (simp add: Batch_window_def sl)
  qed
  have "comprehension
          (\<lambda>f. if b_seq_len B = 0 then Inl ZeroDivisionError
                else comprehension (Batch_window B f) (py_range 0 (int (size1 t0) div b_seq_len B)))
          fs
        = Inr (map (\<lambda>f. map (\<lambda>k. col_slice (b_data B ! the (stoi B f))
                                    (int k * int n) ((int k + 1) * int n))
                              [0..<size1 t0 div n]) fs)"
  proof (rule comprehension_all_Inr)
    fix f assume "f \<in> set fs"
    from w [OF this] show "(if b_seq_len B = 0 then Inl ZeroDivisionError
        else comprehension (Batch_window B f) (py_range 0 (int (size1 t0) div b_seq_len B)))
        = Inr (map (\<lambda>k. col_slice (b_data B ! the (stoi B f)) (int k * int n) ((int k + 1) * int n))
              [0..<size1 t0 div n])"
      using n by (simp add: sl r comp_def)
  qed
  then show "Batch_get B fs =
           Inr (map (\<lambda>f. map (\<lambda>k. col_slice (b_data B ! the (stoi B f))
                                    (int k * int n) ((int k + 1) * int n))
                              [0..<size1 t0 div n]) fs)"
    by (simp add: Batch_get_def d Let_def)
next
  fix M :: tensor2 and k :: nat
  have a: "0 \<le> int k * int n" by simp
  have b: "int k * int n \<le> (int k + 1) * int n" by (simp add: algebra_simps)
  have na: "nat (int k * int n) = k * n" by (simp add: nat_mult_distrib)
  have nb: "nat ((int k + 1) * int n) = (k + 1) * n"
  proof -
    have "(int k + 1) * int n = int ((k + 1) * n)" by (simp add: algebra_simps)
    then show ?thesis by (simp only: nat_int)
  qed
  show "rows (col_slice M (int k * int n) ((int k + 1) * int n))
          = map (\<lambda>r. take n (drop (k * n) r)) (rows M)"
    by (simp add: rows_col_slice_nonneg [OF a b] na nb)
  show s: "size1 (col_slice M (int k * int n) ((int k + 1) * int n))
          = min ((k + 1) * n) (size1 M) - min (k * n) (size1 M)"
    by (simp add: size1_col_slice_nonneg [OF a b] na nb)
  show "(k + 1) * n \<le> size1 M \<longrightarrow>
          size1 (col_slice M (int k * int n) ((int k + 1) * int n)) = n"
    unfolding s by (auto simp add: min_def)
qed

theorem C6_windows_witness:
  "Batch_get (transform_batch [[[1, 2, 3, 4, 5], [5, 6, 7, 8, 9]], [[1], [2]]] [''q'', ''s''] 2)
      [''q'', ''s'']
     = Inr [[Tensor2 2 [[1, 2], [1, - 1]], Tensor2 2 [[3, 4], [- 1, - 1]]],
            [Tensor2 2 [[5, 6], [2, - 1]], Tensor2 2 [[7, 8], [- 1, - 1]]]]"
proof -
  define B where "B = transform_batch [[[1, 2, 3, 4, 5], [5, 6, 7, 8, 9]], [[1], [2]]] [''q'', ''s''] 2"
  have d: "b_data B = Tensor2 5 [[1, 2, 3, 4, 5], [1, - 1, - 1, - 1, - 1]]
                      # [Tensor2 5 [[5, 6, 7, 8, 9], [2, - 1, - 1, - 1, - 1]]]"
    by (simp add: B_def transform_batch_def Batch_init_def zip_star_def pad_sequence_def
        max_len_def)
  have sl: "b_seq_len B = int 2"
    by (simp add: B_def transform_batch_def Batch_init_def)
  have q: "stoi B ''q'' = Some 0" and s: "stoi B ''s'' = Some 1"
    by (simp_all add: B_def transform_batch_def Batch_init_def)
  have known: "\<forall>f\<in>set [''q'', ''s'']. \<exists>j. stoi B f = Some j \<and> j < length (b_data B)"
    by (simp add: q s d)
  have n: "(0::nat) < 2" by simp
  have u: "[0..<5 div 2] = [0, Suc 0]"
    by (simp add: upt_rec)
  from C6_windows [OF d sl n known]
  have "Batch_get B [''q'', ''s''] =
           Inr (map (\<lambda>f. map (\<lambda>k. col_slice (b_data B ! the (stoi B f))
                                    (int k * int 2) ((int k + 1) * int 2))
                              [0..<5 div 2]) [''q'', ''s''])"
    by simp
  then show ?thesis
    unfolding B_def [symmetric] u
    by (simp add: q s d col_slice_def slice_bound_def py_slice_def)
qed

section \<open>Properties of Transform\<close>

lemma comprehension_cases:
  assumes "\<And>x. x \<in> set xs \<Longrightarrow> f x = (if P x then Inr (g x) else Inl e)"
  shows "comprehension f xs = (if \<forall>x\<in>set xs. P x then Inr (map g xs) else Inl e)"
  using assms by (induction xs) auto

text \<open>The scanner of \<^verbatim>\<open>int\<close> accepts exactly the integer tokens and returns their
  values.\<close>

lemma split_at_not_Nil: "split_at x s \<noteq> []"
  by (induction s) (simp_all split: list.splits)

lemma split_at_Cons:
  "c \<noteq> x \<Longrightarrow> split_at x (c # cs) = (c # hd (split_at x cs)) # tl (split_at x cs)"
  using split_at_not_Nil [of x cs] by (cases "split_at x cs") simp_all

lemma concat_split_at: "concat (split_at x s) = filter (\<lambda>c. c \<noteq> x) s"
  by (induction s) (auto split: list.splits)

lemma is_digit_underscore: "\<not> is_digit (CHR ''_'')"
  by (simp add: is_digit_def)

lemma int_digits_groups:
  "int_digits s = list_all (\<lambda>g. g \<noteq> [] \<and> list_all is_digit g) (split_at (CHR ''_'') s)"
proof (induction s rule: int_digits.induct)
  case 1
  then show ?case by simp
next
  case (2 c)
  then show ?case using is_digit_underscore by auto
next
  case (3 c d cs)
  show ?case
  proof (cases "c = CHR ''_''")
    case True
    then show ?thesis using is_digit_underscore by simp
  next
    case c: False
    show ?thesis
    proof (cases "d = CHR ''_''")
      case True
      with c 3 show ?thesis by (simp add: split_at_Cons)
    next
      case False
      then have "split_at (CHR ''_'') (d # cs)
          = (d # hd (split_at (CHR ''_'') cs)) # tl (split_at (CHR ''_'') cs)"
        by (rule split_at_Cons)
      with c False 3 show ?thesis by (simp add: split_at_Cons)
    qed
  qed
qed

lemma digits_only:
  assumes "int_digits s"
  shows "filter is_digit s = filter (\<lambda>c. c \<noteq> CHR ''_'') s"
proof -
  from assms have "list_all (\<lambda>g. list_all is_digit g) (split_at (CHR ''_'') s)"
    by (simp add: int_digits_groups list_all_iff)
  then have "list_all is_digit (concat (split_at (CHR ''_'') s))"
    by (auto simp add: list_all_iff)
  then have d: "\<forall>c\<in>set s. c \<noteq> CHR ''_'' \<longrightarrow> is_digit c"
    by (auto simp add: concat_split_at list_all_iff)
  show ?thesis
    by (rule filter_cong) (use d is_digit_underscore in auto)
qed

lemma fold_skip:
  "fold (\<lambda>c acc. if c = x then acc else f c acc) s a = fold f (filter (\<lambda>c. c \<noteq> x) s) a"
  by (induction s arbitrary: a) simp_all

lemma fold_positional:
  "fold (\<lambda>c acc. 10 * acc + d c) ds (a::int)
     = a * 10 ^ length ds + (\<Sum>i<length ds. d (ds ! i) * 10 ^ (length ds - Suc i))"
proof (induction ds arbitrary: a)
  case Nil
  then show ?case by simp
next
  case (Cons c ds)
  have "(\<Sum>i<Suc (length ds). d ((c # ds) ! i) * 10 ^ (Suc (length ds) - Suc i))
      = d c * 10 ^ length ds + (\<Sum>i<length ds. d (ds ! i) * 10 ^ (length ds - Suc i))"
    by (subst sum.lessThan_Suc_shift) simp
  with Cons [of "10 * a + d c"] show ?case
    by (simp add: algebra_simps)
qed

lemma digits_value_decimal:
  "digits_value s = decimal_value (filter (\<lambda>c. c \<noteq> CHR ''_'') s)"
  using fold_positional [of "\<lambda>c. int (of_char c) - 48" "filter (\<lambda>c. c \<noteq> CHR ''_'') s" 0]
  by (simp add: digits_value_def decimal_value_def fold_skip)

lemma py_int_refines:
  "py_int m tok = (if integer_literal m tok then Inr (literal_value tok) else Inl ValueError)"
proof -
  define t where "t = strip_chars int_isspace tok"
  define body where "body = literal_body tok"
  define n where "n = length (concat (split_at (CHR ''_'') body))"
  have b: "(if t \<noteq> [] \<and> (hd t = CHR ''-'' \<or> hd t = CHR ''+'') then tl t else t) = body"
    by (cases t) (auto simp add: body_def literal_body_def t_def [symmetric])
  have v: "literal_value tok
      = (if t \<noteq> [] \<and> hd t = CHR ''-'' then - digits_value body else digits_value body)"
    by (cases t)
      (simp_all add: literal_value_def t_def [symmetric] body_def [symmetric]
         digits_value_decimal concat_split_at Let_def)
  have p: "py_int m tok =
      (if \<not> int_digits body then Inl ValueError
       else if 640 < length (filter is_digit body) \<and> 0 < m \<and> m < length (filter is_digit body)
       then Inl ValueError
       else Inr (if t \<noteq> [] \<and> hd t = CHR ''-'' then - digits_value body else digits_value body))"
    by (simp only: py_int_def Let_def t_def [symmetric] b)
  have l: "integer_literal m tok =
      (list_all (\<lambda>g. g \<noteq> [] \<and> list_all is_digit g) (split_at (CHR ''_'') body)
       \<and> (n \<le> 640 \<or> m = 0 \<or> n \<le> m))"
    by (simp add: integer_literal_def Let_def body_def n_def)
  show ?thesis
  proof (cases "int_digits body")
    case False
    then have "\<not> integer_literal m tok" by (simp add: l int_digits_groups)
    with False show ?thesis by (simp add: p)
  next
    case True
    then have "length (filter is_digit body) = n"
      by (simp add: digits_only concat_split_at n_def)
    moreover from True have "integer_literal m tok = (n \<le> 640 \<or> m = 0 \<or> n \<le> m)"
      by (simp add: l int_digits_groups)
    ultimately show ?thesis using True
      by (auto simp add: p v)
  qed
qed

lemma parse_line_cases:
  "parse_line m line =
     (if \<forall>tok\<in>set (tokens line). integer_literal m tok
      then Inr (map literal_value (tokens line))
      else Inl ValueError)"
  unfolding parse_line_def by (rule comprehension_cases) (rule py_int_refines)

lemma parse_record_Group:
  "parse_record m (Group (marker # ls)) =
     (if \<forall>line\<in>set ls. \<forall>tok\<in>set (tokens line). integer_literal m tok
      then Inr (map (\<lambda>line. map literal_value (tokens line)) ls)
      else Inl ValueError)"
proof -
  have "comprehension (parse_line m) ls =
     (if \<forall>line\<in>set ls. \<forall>tok\<in>set (tokens line). integer_literal m tok
      then Inr (map (\<lambda>line. map literal_value (tokens line)) ls)
      else Inl ValueError)"
    by (rule comprehension_cases) (rule parse_line_cases)
  then show ?thesis by (simp only: parse_record_def record_item.case list.case)
qed

lemma length_py_range_0: "length (py_range 0 n) = nat n"
  by (simp add: py_range_def)

lemma record_lines_group:
  assumes "group L \<noteq> 1"
  shows "fetch L i = Group (record_lines L i)" and "length (record_lines L i) = nat (group L)"
  using assms by (simp_all add: record_lines_def fetch_def Let_def length_py_range_0)

lemma record_lines_stripped:
  "group L \<noteq> 1 \<Longrightarrow> \<not> preserve_newline L \<Longrightarrow>
   record_lines L i =
     map (\<lambda>k. strip_chars is_crlf
                 (linecache_getline (file_lines L) (skip L + i * group L + 1 + k)))
         (py_range 0 (group L))"
  by (simp add: record_lines_def fetch_group)

text \<open>The content \<^verbatim>\<open>"5\n"\<close> read with \<open>group = 1\<close>, and the file of two records read
  with \<open>group = 2\<close>.\<close>

lemma Lines_init_one_line:
  "Lines_init False (Some [CHR ''5'', CHR 0x0A]) 0 1 False =
     Inr \<lparr>file_lines = [[CHR ''5'', CHR 0x0A]], length_l = 1, skip = 0, group = 1,
          preserve_newline = False\<rparr>"
  by (simp add: Lines_init_def wc_l_def linecache_getlines_def readlines_def)

lemma Lines_init_two_records:
  "Lines_init True (Some two_records) 0 2 False =
     Inr \<lparr>file_lines = [''2'' @ [CHR 0x0A], ''1,2'' @ [CHR 0x0A], ''3'' @ [CHR 0x0A],
                         ''4,5,6'' @ [CHR 0x0A]],
          length_l = 2, skip = 0, group = 2, preserve_newline = False\<rparr>"
  by (simp add: Lines_init_def two_records_def linecache_getlines_def readlines_def)

text \<open>
  Claim C7 as stated (for every valid record index \<^verbatim>\<open>parseOne\<close> drops the marker line and
  returns the parsed remaining lines, failing only with a parse error, and only on a token
  that is not an integer) fails for a reader with \<open>group = 1\<close>: the reader returns a single
  string, and the deletion of the marker line raises \<^verbatim>\<open>TypeError\<close>, although the record
  holds no token that is not an integer.
\<close>

theorem C7_counterexample:
  "(case Lines_init False (Some [CHR ''5'', CHR 0x0A]) 0 1 False of
      Inl e \<Rightarrow> False
    | Inr L \<Rightarrow>
        Lines_getitem_int L 0 = Inr (Line ''5'')
        \<and> Transform_getitem_int 4300 int64_tensor \<lparr>t_data = L, inputs = [], seq_len = 2\<rparr> 0
            = Inl TypeError)"
  by (simp add: Lines_init_one_line Transform_getitem_int_def Lines_getitem_int_def
      Lines_len_def fetch_def linecache_getline_def strip_chars_def is_crlf_def
      parse_record_def)

text \<open>
  Claim C7, amended: for a reader with \<open>group \<ge> 2\<close> and every valid record index \<open>i\<close>,
  \<^verbatim>\<open>parseOne(i)\<close> drops the first (marker) line of the record and splits each remaining
  line, stripped of surrounding white space, on commas.  If some token is not an integer
  token it fails with \<^verbatim>\<open>ValueError\<close>, and only then with an error of the parse.
  Otherwise it hands the integer sequence of each line, in order, to \<^verbatim>\<open>torch.tensor\<close> and
  returns the list of the results; it fails where that conversion fails, with its error.
\<close>

theorem C7_parse_one:
  assumes g: "2 \<le> group (t_data T)" and i: "0 \<le> i" "i < length_l (t_data T)"
  shows "Transform_getitem_int m tensor T i =
     (if \<forall>line\<in>set (tl (record_lines (t_data T) i)).
           \<forall>tok\<in>set (tokens line). integer_literal m tok
      then comprehension tensor
             (map (\<lambda>line. map literal_value (tokens line)) (tl (record_lines (t_data T) i)))
      else Inl ValueError)"
proof -
  from g have ne: "group (t_data T) \<noteq> 1" by simp
  have "length (record_lines (t_data T) i) = nat (group (t_data T))"
    using ne by (rule record_lines_group)
  with g obtain marker ls where r: "record_lines (t_data T) i = marker # ls"
    by (cases "record_lines (t_data T) i") auto
  have "Lines_getitem_int (t_data T) i = Inr (Group (marker # ls))"
    using i record_lines_group(1) [OF ne, of i] by (simp add: Lines_getitem_int_in_range r)
  then show ?thesis
    by (simp add: Transform_getitem_int_def parse_record_Group r)
qed

theorem C7_parse_one_witness:
  "(case Lines_init True (Some two_records) 0 2 False of
      Inl e \<Rightarrow> False
    | Inr L \<Rightarrow>
        Transform_getitem_int 4300 int64_tensor \<lparr>t_data = L, inputs = [''q''], seq_len = 2\<rparr> 1
          = Inr [[4, 5, 6]])"
proof -
  define L where "L = \<lparr>file_lines = [''2'' @ [CHR 0x0A], ''1,2'' @ [CHR 0x0A],
                         ''3'' @ [CHR 0x0A], ''4,5,6'' @ [CHR 0x0A]],
          length_l = 2, skip = 0, group = 2, preserve_newline = False\<rparr>"
  define T where "T = \<lparr>t_data = L, inputs = [''q''], seq_len = 2\<rparr>"
  have r: "record_lines L 1 = [''3'', ''4,5,6'']"
    by (simp add: record_lines_stripped L_def py_range_def upto_rec1 linecache_getline_def
        strip_chars_def is_crlf_def)
  have t: "tokens ''4,5,6'' = [''4'', ''5'', ''6'']"
    by (simp add: tokens_def strip_chars_def py_isspace_def)
  have p: "py_int 4300 ''4'' = Inr 4" "py_int 4300 ''5'' = Inr 5" "py_int 4300 ''6'' = Inr 6"
    by (simp_all add: py_int_def strip_chars_def int_isspace_def is_digit_def digits_value_def)
  have l: "integer_literal 4300 ''4''" "integer_literal 4300 ''5''" "integer_literal 4300 ''6''"
    "literal_value ''4'' = 4" "literal_value ''5'' = 5" "literal_value ''6'' = 6"
    using p by (simp_all add: py_int_refines split: if_splits)
  have g: "2 \<le> group (t_data T)" and i: "0 \<le> (1::int)" "1 < length_l (t_data T)"
    by (simp_all add: T_def L_def)
  have tl: "tl (record_lines (t_data T) 1) = [''4,5,6'']"
    by (simp add: T_def r)
  from C7_parse_one [OF g i, of 4300 int64_tensor]
  have "Transform_getitem_int 4300 int64_tensor T 1 = Inr [[4, 5, 6]]"
    unfolding tl by (simp add: t l int64_tensor_def)
  then show ?thesis
    by (simp add: Lines_init_two_records T_def L_def)
qed

text \<open>An integer token beyond the 64-bit range is parsed, and the conversion to a tensor
  raises.\<close>

lemma parse_then_tensor_overflow:
  "integer_literal 4300 ''9223372036854775808''
   \<and> literal_value ''9223372036854775808'' = 2 ^ 63
   \<and> comprehension int64_tensor [[literal_value ''9223372036854775808'']] = Inl RuntimeError"
proof -
  have "py_int 4300 ''9223372036854775808'' = Inr (2 ^ 63)"
    by (simp add: py_int_def strip_chars_def int_isspace_def is_digit_def digits_value_def)
  then have "integer_literal 4300 ''9223372036854775808''"
    and "literal_value ''9223372036854775808'' = 2 ^ 63"
    by (simp_all add: py_int_refines split: if_splits)
  then show ?thesis by (simp add: int64_tensor_def)
qed

section \<open>Properties of the Iterator\<close>

lemma produce_loop_append:
  assumes "\<And>i. i \<in> set xs \<Longrightarrow> step i = Inr (v i)"
  shows "produce_loop True step (xs @ ys) =
           (map (\<lambda>i. Inr (v i)) xs @ fst (produce_loop True step ys),
            snd (produce_loop True step ys))"
  using assms by (induction xs) (simp_all add: split_beta)

lemma produce_loop_all:
  assumes "\<And>i. i \<in> set xs \<Longrightarrow> step i = Inr (v i)"
  shows "produce_loop True step xs = (map (\<lambda>i. Inr (v i)) xs, Completed)"
  using produce_loop_append [of xs step v "[]"] assms by simp

lemma produce_loop_fail:
  assumes "\<And>i. i \<in> set xs \<Longrightarrow> step i = Inr (v i)" and "step k = Inl e"
  shows "produce_loop True step (xs @ k # ys) = (map (\<lambda>i. Inr (v i)) xs @ [Inl e], Returned)"
  using produce_loop_append [of xs step v "k # ys"] assms by simp

lemma produce_loop_sync:
  "produce_loop False step (i # is) =
     (case step i of Inl e \<Rightarrow> ([], Raised e) | Inr v \<Rightarrow> ([Inr v], Returned))"
  by (simp split: sum.splits)

lemma py_range_split:
  assumes "a \<le> k" and "k < b"
  shows "py_range a b = py_range a k @ k # py_range (k + 1) b"
  using assms upto_split3 [of a k "b - 1"] by (simp add: py_range_def)

lemma py_range_split2:
  assumes "a \<le> k" and "k \<le> b"
  shows "py_range a b = py_range a k @ py_range k b"
  using assms upto_split1 [of a k "b - 1"] 
  by (cases "k = b") (simp_all add: py_range_def)

lemma py_range_Cons: "a < b \<Longrightarrow> py_range a b = a # py_range (a + 1) b"
  by (simp add: py_range_def upto_rec1)

lemma py_range_empty: "b \<le> a \<Longrightarrow> py_range a b = []"
  by (simp add: py_range_def)

lemma set_py_range: "set (py_range a b) = {a..<b}"
  by (auto simp add: py_range_def)


lemma element_step_update [simp]:
  "element_step (it\<lparr>pos := x\<rparr>) = element_step it"
  "element_step (it\<lparr>queue := q\<rparr>) = element_step it"
  "element_step (it\<lparr>thread := t\<rparr>) = element_step it"
  by (simp_all add: element_step_def fun_eq_iff cong: sum.case_cong)

lemma full_shuffle_step_update [simp]:
  "full_shuffle_step (it\<lparr>pos := x\<rparr>) = full_shuffle_step it"
  "full_shuffle_step (it\<lparr>queue := q\<rparr>) = full_shuffle_step it"
  "full_shuffle_step (it\<lparr>thread := t\<rparr>) = full_shuffle_step it"
  by (simp_all add: full_shuffle_step_def apply_transform_def fun_eq_iff Let_def
      cong: sum.case_cong option.case_cong)

lemma slice_step_update [simp]:
  "slice_step (it\<lparr>pos := x\<rparr>) = slice_step it"
  "slice_step (it\<lparr>queue := q\<rparr>) = slice_step it"
  "slice_step (it\<lparr>thread := t\<rparr>) = slice_step it"
  by (simp_all add: slice_step_def fun_eq_iff cong: sum.case_cong option.case_cong)

lemma batched_step_update [simp]:
  "batched_step (it\<lparr>pos := x\<rparr>) = batched_step it"
  "batched_step (it\<lparr>queue := q\<rparr>) = batched_step it"
  "batched_step (it\<lparr>thread := t\<rparr>) = batched_step it"
  by (simp_all add: batched_step_def cong: option.case_cong list.case_cong)

lemma production_step_update [simp]:
  "production_step (it\<lparr>pos := x\<rparr>) = production_step it"
  "production_step (it\<lparr>queue := q\<rparr>) = production_step it"
  "production_step (it\<lparr>thread := t\<rparr>) = production_step it"
  by (simp_all add: production_step_def cong: option.case_cong)

lemma Iterator_len_update [simp]:
  "Iterator_len (it\<lparr>pos := x\<rparr>) = Iterator_len it"
  "Iterator_len (it\<lparr>queue := q\<rparr>) = Iterator_len it"
  "Iterator_len (it\<lparr>thread := t\<rparr>) = Iterator_len it"
  by (simp_all add: Iterator_len_def cong: option.case_cong if_cong)

lemma production_end_update [simp]:
  "production_end (it\<lparr>pos := x\<rparr>) = production_end it"
  "production_end (it\<lparr>queue := q\<rparr>) = production_end it"
  "production_end (it\<lparr>thread := t\<rparr>) = production_end it"
  by (simp_all add: production_end_def cong: option.case_cong)

lemma produce_sync:
  assumes "production_end it = Inr n" and "pos it < n"
  shows "produce it False lp =
           (case production_step it (pos it) of
              Inl e \<Rightarrow> ([], Raised e)
            | Inr v \<Rightarrow> ([Inr v], Returned))"
proof (cases "batch_size it")
  case None
  with assms have "py_range (pos it) (length_it it) = pos it # py_range (pos it + 1) (length_it it)"
    by (simp add: production_end_def py_range_Cons)
  then show ?thesis using None
    by (simp add: produce_def production_step_def split: sum.splits)
next
  case (Some bs)
  with assms have "Iterator_len it = Inr n" by (simp add: production_end_def)
  moreover from assms have "py_range (pos it) n = pos it # py_range (pos it + 1) n"
    by (simp add: py_range_Cons)
  ultimately show ?thesis using Some
    by (simp add: produce_def produce_batched_def production_step_def split: sum.splits)
qed

lemma produce_daemon_first_loop:
  assumes "production_end it = Inr n"
  shows "\<exists>tail r. produce it True lp =
           (fst (produce_loop True (production_step it) (py_range (pos it) n)) @ tail, r)
         \<and> (snd (produce_loop True (production_step it) (py_range (pos it) n)) \<noteq> Completed
              \<longrightarrow> tail = [] \<and> r = snd (produce_loop True (production_step it) (py_range (pos it) n)))"
proof (cases "batch_size it")
  case None
  with assms have n: "length_it it = n" by (simp add: production_end_def)
  obtain q r where l: "produce_loop True (element_step it) (py_range (pos it) n) = (q, r)"
    by (cases "produce_loop True (element_step it) (py_range (pos it) n)")
  show ?thesis
  proof (cases "r = Completed")
    case True
    obtain q' r' where "produce_batched it True lp = (q', r')"
      by (cases "produce_batched it True lp")
    then show ?thesis using None n l True
      by (simp add: produce_def production_step_def)
  next
    case False
    then show ?thesis using None n l
      by (cases r) (simp_all add: produce_def production_step_def)
  qed
next
  case (Some bs)
  with assms have "Iterator_len it = Inr n" by (simp add: production_end_def)
  then have "produce it True lp = produce_loop True (production_step it) (py_range (pos it) n)"
    using Some by (simp add: produce_def produce_batched_def production_step_def)
  then have "produce it True lp =
           (fst (produce_loop True (production_step it) (py_range (pos it) n)) @ [],
            snd (produce_loop True (production_step it) (py_range (pos it) n)))"
    by simp
  then show ?thesis by blast
qed

lemma produce_daemon_prefix:
  assumes e: "production_end it = Inr n" and "pos it \<le> m" and "m \<le> n"
    and ok: "\<And>i. i \<in> set (py_range (pos it) m) \<Longrightarrow> production_step it i = Inr (v i)"
  shows "\<exists>tail. fst (produce it True lp) = map (\<lambda>i. Inr (v i)) (py_range (pos it) m) @ tail"
proof -
  have sp: "py_range (pos it) n = py_range (pos it) m @ py_range m n"
    using assms(2,3) by (rule py_range_split2)
  have "produce_loop True (production_step it) (py_range (pos it) m @ py_range m n) =
           (map (\<lambda>i. Inr (v i)) (py_range (pos it) m)
              @ fst (produce_loop True (production_step it) (py_range m n)),
            snd (produce_loop True (production_step it) (py_range m n)))"
    by (rule produce_loop_append) (rule ok)
  then have "fst (produce_loop True (production_step it) (py_range (pos it) n))
      = map (\<lambda>i. Inr (v i)) (py_range (pos it) m)
        @ fst (produce_loop True (production_step it) (py_range m n))"
    by (simp only: sp fst_conv)
  moreover from produce_daemon_first_loop [OF e, of lp] obtain tail r where
    "produce it True lp =
       (fst (produce_loop True (production_step it) (py_range (pos it) n)) @ tail, r)"
    by blast
  ultimately have "fst (produce it True lp) = map (\<lambda>i. Inr (v i)) (py_range (pos it) m)
        @ (fst (produce_loop True (production_step it) (py_range m n)) @ tail)"
    by simp
  then show ?thesis ..
qed

lemma produce_daemon_fail:
  assumes e: "production_end it = Inr n" and "pos it \<le> k" and "k < n"
    and ok: "\<And>i. i \<in> set (py_range (pos it) k) \<Longrightarrow> production_step it i = Inr (v i)"
    and bad: "production_step it k = Inl e"
  shows "produce it True lp = (map (\<lambda>i. Inr (v i)) (py_range (pos it) k) @ [Inl e], Returned)"
proof -
  have sp: "py_range (pos it) n = py_range (pos it) k @ k # py_range (k + 1) n"
    using assms(2,3) by (rule py_range_split)
  have "produce_loop True (production_step it) (py_range (pos it) k @ k # py_range (k + 1) n)
      = (map (\<lambda>i. Inr (v i)) (py_range (pos it) k) @ [Inl e], Returned)"
    by (rule produce_loop_fail) (rule ok, assumption, rule bad)
  then have "produce_loop True (production_step it) (py_range (pos it) n)
      = (map (\<lambda>i. Inr (v i)) (py_range (pos it) k) @ [Inl e], Returned)"
    by (simp only: sp)
  moreover from produce_daemon_first_loop [OF e, of lp] obtain tail r where
    "produce it True lp =
       (fst (produce_loop True (production_step it) (py_range (pos it) n)) @ tail, r)"
    and "snd (produce_loop True (production_step it) (py_range (pos it) n)) \<noteq> Completed
              \<longrightarrow> tail = [] \<and> r = snd (produce_loop True (production_step it) (py_range (pos it) n))"
    by blast
  ultimately show ?thesis by simp
qed

lemma next_sync:
  assumes "\<not> prefetch it" and "queue it = []" and "pos it < int (length (index it))"
    and "production_end it = Inr n" and "pos it < n"
  shows "Iterator_next it lp =
           (case production_step it (pos it) of
              Inl e \<Rightarrow> (Raise e, it)
            | Inr v \<Rightarrow> (Return v, it\<lparr>pos := pos it + 1\<rparr>))"
  using assms produce_sync [of it n "pos it"]
  by (simp add: Iterator_next_def Let_def split: sum.splits)

lemma next_started:
  assumes "prefetch it" and "thread it" and "pos it < int (length (index it))"
  shows "Iterator_next it lp =
           (case queue it of
              [] \<Rightarrow> (Blocked, it)
            | Inl e # rest \<Rightarrow> (Raise e, it\<lparr>queue := rest\<rparr>)
            | Inr v # rest \<Rightarrow> (Return v, it\<lparr>queue := rest, pos := pos it + 1\<rparr>))"
  using assms by (simp add: Iterator_next_def Let_def split: list.splits sum.splits)

lemma next_start:
  assumes "prefetch it" and "\<not> thread it"
  shows "Iterator_next it lp =
           Iterator_next (it\<lparr>thread := True, queue := queue it @ fst (produce it True lp)\<rparr>) lp"
  using assms by (simp add: Iterator_next_def Let_def)


lemma next_n_add:
  "next_n (a + b) it lp =
     (case next_n a it lp of (r1, it1) \<Rightarrow>
        (case next_n b it1 lp of (r2, it2) \<Rightarrow> (r1 @ r2, it2)))"
  by (induction a arbitrary: it) (simp_all add: split_beta)

lemma next_n_sync:
  assumes "\<not> prefetch it" and "queue it = []" and "production_end it = Inr n"
    and "int (length (index it)) = n" and "pos it + int j \<le> n"
    and "\<And>i. i \<in> set (py_range (pos it) (pos it + int j)) \<Longrightarrow> production_step it i = Inr (v i)"
  shows "next_n j it lp =
           (map (\<lambda>i. Return (v i)) (py_range (pos it) (pos it + int j)),
            it\<lparr>pos := pos it + int j\<rparr>)"
  using assms
proof (induction j arbitrary: it)
  case 0
  then show ?case by (simp add: py_range_empty)
next
  case (Suc j)
  have r: "py_range (pos it) (pos it + int (Suc j)) = pos it # py_range (pos it + 1) (pos it + int (Suc j))"
    by (rule py_range_Cons) simp
  have s: "production_step it (pos it) = Inr (v (pos it))"
    by (rule Suc.prems(6)) (simp add: set_py_range)
  have lt: "pos it < n" using Suc.prems(5) by simp
  have nx: "Iterator_next it lp = (Return (v (pos it)), it\<lparr>pos := pos it + 1\<rparr>)"
    using next_sync [of it n lp] Suc.prems(1-4) lt s by simp
  let ?it = "it\<lparr>pos := pos it + 1\<rparr>"
  have ih: "next_n j ?it lp =
           (map (\<lambda>i. Return (v i)) (py_range (pos ?it) (pos ?it + int j)),
            ?it\<lparr>pos := pos ?it + int j\<rparr>)"
  proof (rule Suc.IH)
    show "\<not> prefetch ?it" "queue ?it = []" "production_end ?it = Inr n"
      "int (length (index ?it)) = n" "pos ?it + int j \<le> n"
      using Suc.prems by simp_all
    fix i assume "i \<in> set (py_range (pos ?it) (pos ?it + int j))"
    then have "i \<in> set (py_range (pos it) (pos it + int (Suc j)))"
      by (simp add: set_py_range)
    then show "production_step ?it i = Inr (v i)"
      using Suc.prems(6) by simp
  qed
  have r': "py_range (pos it) (pos it + (1 + int j))
      = pos it # py_range (pos it + 1) (pos it + (1 + int j))"
    by (rule py_range_Cons) simp
  show ?case
    by (simp add: nx ih r' add.assoc)
qed

lemma next_n_pop:
  assumes "prefetch it" and "thread it" and "queue it = map Inr vs @ rest"
    and "pos it + int (length vs) \<le> int (length (index it))"
  shows "next_n (length vs) it lp =
           (map Return vs, it\<lparr>queue := rest, pos := pos it + int (length vs)\<rparr>)"
  using assms
proof (induction vs arbitrary: it)
  case Nil
  then show ?case by simp
next
  case (Cons a vs)
  have nx: "Iterator_next it lp = (Return a, it\<lparr>queue := map Inr vs @ rest, pos := pos it + 1\<rparr>)"
    using next_started [of it lp] Cons.prems by simp
  let ?it = "it\<lparr>queue := map Inr vs @ rest, pos := pos it + 1\<rparr>"
  have ih: "next_n (length vs) ?it lp =
           (map Return vs, ?it\<lparr>queue := rest, pos := pos ?it + int (length vs)\<rparr>)"
    by (rule Cons.IH) (use Cons.prems in simp_all)
  show ?case
    by (simp add: nx ih add.assoc)
qed


lemma next_n_prefetch:
  assumes pf: "prefetch it" and nt: "\<not> thread it" and q: "queue it = []"
    and le: "pos it + int j \<le> int (length (index it))"
    and tr: "fst (produce it True lp) = map (\<lambda>i. Inr (v i)) (py_range (pos it) (pos it + int j)) @ tail"
    and j: "0 < j"
  shows "next_n j it lp =
           (map (\<lambda>i. Return (v i)) (py_range (pos it) (pos it + int j)),
            it\<lparr>queue := tail, thread := True, pos := pos it + int j\<rparr>)"
proof -
  let ?S = "it\<lparr>thread := True, queue := queue it @ fst (produce it True lp)\<rparr>"
  let ?vs = "map v (py_range (pos it) (pos it + int j))"
  from j obtain j' where j': "j = Suc j'" by (cases j) auto
  have len: "length ?vs = j" by (simp add: length_py_range)
  have "next_n j it lp = next_n j ?S lp"
    by (simp add: j' next_start [OF pf nt])
  also have "\<dots> = next_n (length ?vs) ?S lp" by (simp only: len)
  also have "\<dots> = (map Return ?vs, ?S\<lparr>queue := tail, pos := pos ?S + int (length ?vs)\<rparr>)"
  proof (rule next_n_pop)
    show "prefetch ?S" "thread ?S" using pf by simp_all
    show "queue ?S = map Inr ?vs @ tail" by (simp add: q tr comp_def)
    show "pos ?S + int (length ?vs) \<le> int (length (index ?S))"
      using le by (simp only: len) simp
  qed
  finally show ?thesis by (simp add: length_py_range comp_def)
qed






lemma Iterator_init_flaky:
  "Iterator_init flaky [] pf None None None False False id id =
     Inr \<lparr>data = flaky, label = [], prefetch = pf, batch_size = None, queue = [],
          length_it = 3, transform = None, index = [0, 1, 2], full_index = None,
          thread = False, pos = 0\<rparr>"
proof -
  have "src_len flaky = Inr 3" by (simp add: flaky_def)
  moreover have "py_range 0 3 = [0, 1, 2]" by (simp add: py_range_def upto_rec1)
  ultimately show ?thesis
    by (simp add: Iterator_init_def Iterator_len_def Let_def)
qed

text \<open>
  Claim C1 as stated (in both modes the failure of a production step is put on the queue,
  and the next \<^verbatim>\<open>get\<close> of the consumer raises it) fails without prefetching: the
  synchronous \<^verbatim>\<open>produce(False)\<close> raises the failure itself, out of \<^verbatim>\<open>__next__\<close>, and
  puts nothing on the queue.
\<close>

theorem C1_counterexample:
  "(case Iterator_init flaky [] False None None None False False id id of
      Inl e \<Rightarrow> False
    | Inr it \<Rightarrow>
        produce (it\<lparr>pos := 2\<rparr>) False 2 = ([], Raised OSError)
        \<and> fst (Iterator_next (it\<lparr>pos := 2\<rparr>) 2) = Raise OSError
        \<and> queue (snd (Iterator_next (it\<lparr>pos := 2\<rparr>) 2)) = [])"
proof -
  have r: "py_range 2 3 = [2]" by (simp add: py_range_def upto_rec1)
  have g: "getitem flaky 2 = Inl OSError" by (simp add: flaky_def)
  have p: "produce \<lparr>data = flaky, label = [], prefetch = False, batch_size = None, queue = [],
          length_it = 3, transform = None, index = [0, 1, 2], full_index = None,
          thread = False, pos = 2\<rparr> False 2 = ([], Raised OSError)"
    by (simp add: produce_def r element_step_def g)
  show ?thesis
    by (simp add: Iterator_init_flaky Iterator_next_def p)
qed

lemma next_n_snoc:
  assumes "next_n j it lp = (rs, it1)" and "Iterator_next it1 lp = (r, it2)"
  shows "next_n (j + 1) it lp = (rs @ [r], it2)"
proof -
  have "next_n (Suc 0) it1 lp = ([r], it2)" using assms(2) by simp
  then have "(case next_n j it lp of (r1, it1) \<Rightarrow>
        (case next_n 1 it1 lp of (r2, it2) \<Rightarrow> (r1 @ r2, it2))) = (rs @ [r], it2)"
    using assms(1) by simp
  then show ?thesis by (simp only: next_n_add)
qed

text \<open>
  Claim C1, amended.  Let the production steps from the current position up to \<open>k\<close>
  succeed and step \<open>k\<close> fail with \<open>e\<close>.
  With prefetching, the worker puts the values of the steps before \<open>k\<close>, then \<open>e\<close> in
  place of a value, and returns: nothing is produced after it.  The consumer gets the
  values, then its next call raises \<open>e\<close>, and a further call finds the queue empty for
  good.
  Without prefetching the failure is not put on the queue: the production step of the call
  that reaches \<open>k\<close> raises \<open>e\<close> out of \<^verbatim>\<open>__next__\<close>, and queue and position stay as
  they were before that call.
\<close>

theorem C1_failure_propagation:
  assumes q: "queue it = []" and nt: "\<not> thread it" and pe: "production_end it = Inr n"
    and ix: "int (length (index it)) = n" and pk: "pos it \<le> k" and kn: "k < n"
    and ok: "\<And>i. pos it \<le> i \<Longrightarrow> i < k \<Longrightarrow> production_step it i = Inr (v i)"
    and bad: "production_step it k = Inl e"
  shows "(prefetch it \<longrightarrow>
            produce it True lp = (map (\<lambda>i. Inr (v i)) (py_range (pos it) k) @ [Inl e], Returned)
          \<and> next_n (nat (k - pos it) + 1) it lp =
              (map (\<lambda>i. Return (v i)) (py_range (pos it) k) @ [Raise e],
               it\<lparr>queue := [], thread := True, pos := k\<rparr>)
          \<and> fst (Iterator_next (it\<lparr>queue := [], thread := True, pos := k\<rparr>) lp) = Blocked)
       \<and> (\<not> prefetch it \<longrightarrow>
            produce (it\<lparr>pos := k\<rparr>) False k = ([], Raised e)
          \<and> next_n (nat (k - pos it) + 1) it lp =
              (map (\<lambda>i. Return (v i)) (py_range (pos it) k) @ [Raise e], it\<lparr>pos := k\<rparr>))"
proof (intro conjI impI)
  define j where "j = nat (k - pos it)"
  have pj: "pos it + int j = k" using pk by (simp add: j_def)
  have ok': "production_step it i = Inr (v i)" if "i \<in> set (py_range (pos it) k)" for i
    using that by (intro ok) (simp_all add: set_py_range)
  {
    assume pf: "prefetch it"
    show tr: "produce it True lp = (map (\<lambda>i. Inr (v i)) (py_range (pos it) k) @ [Inl e], Returned)"
      using pe pk kn ok' bad by (rule produce_daemon_fail)
    let ?F = "it\<lparr>queue := [], thread := True, pos := k\<rparr>"
    let ?S = "it\<lparr>queue := [Inl e], thread := True, pos := k\<rparr>"
    have last: "Iterator_next ?S lp = (Raise e, ?F)"
      using next_started [of ?S lp] pf kn ix by simp
    have "next_n (j + 1) it lp =
              (map (\<lambda>i. Return (v i)) (py_range (pos it) k) @ [Raise e], ?F)"
    proof (cases "j = 0")
      case True
      with pj have k: "k = pos it" by simp
      have "it\<lparr>thread := True, queue := queue it @ fst (produce it True lp)\<rparr> = ?S"
        by (simp add: tr q k py_range_empty)
      then have "Iterator_next it lp = Iterator_next ?S lp"
        using next_start [OF pf nt, of lp] by simp
      then show ?thesis using True last by (simp add: k py_range_empty)
    next
      case False
      then have "0 < j" by simp
      from next_n_prefetch [OF pf nt q _ _ this, of lp v "[Inl e]"]
      have "next_n j it lp = (map (\<lambda>i. Return (v i)) (py_range (pos it) k), ?S)"
        using tr pj kn ix by simp
      then show ?thesis using last by (rule next_n_snoc)
    qed
    then show "next_n (nat (k - pos it) + 1) it lp =
              (map (\<lambda>i. Return (v i)) (py_range (pos it) k) @ [Raise e], ?F)"
      by (simp add: j_def)
    show "fst (Iterator_next ?F lp) = Blocked"
      using next_started [of ?F lp] pf kn ix by simp
  }
  {
    assume np: "\<not> prefetch it"
    let ?K = "it\<lparr>pos := k\<rparr>"
    show "produce ?K False k = ([], Raised e)"
      using produce_sync [of ?K n k] pe kn bad by simp
    have last: "Iterator_next ?K lp = (Raise e, ?K)"
      using next_sync [of ?K n lp] np q pe kn ix bad by simp
    from next_n_sync [OF np q pe ix, of j v lp]
    have "next_n j it lp = (map (\<lambda>i. Return (v i)) (py_range (pos it) k), ?K)"
      using pj kn ok' by simp
    then have "next_n (j + 1) it lp =
              (map (\<lambda>i. Return (v i)) (py_range (pos it) k) @ [Raise e], ?K)"
      using last by (rule next_n_snoc)
    then show "next_n (nat (k - pos it) + 1) it lp =
              (map (\<lambda>i. Return (v i)) (py_range (pos it) k) @ [Raise e], ?K)"
      by (simp add: j_def)
  }
qed


theorem C1_failure_propagation_witness:
  "(case Iterator_init flaky [] True None None None False False id id of
      Inl e \<Rightarrow> False
    | Inr it \<Rightarrow>
        produce it True 0 = ([Inr (Obj 0), Inr (Obj 10), Inl OSError], Returned)
        \<and> fst (next_n 3 it 0) = [Return (Obj 0), Return (Obj 10), Raise OSError])"
proof -
  define it where "it = \<lparr>data = flaky, label = [], prefetch = True, batch_size = None,
          queue = [], length_it = 3, transform = None, index = [0, 1, 2], full_index = None,
          thread = False, pos = 0\<rparr>"
  have r: "py_range 0 2 = [0, 1]" by (simp add: py_range_def upto_rec1)
  have q: "queue it = []" and nt: "\<not> thread it" and pe: "production_end it = Inr 3"
    and ix: "int (length (index it)) = 3" and pk: "pos it \<le> 2" and pf: "prefetch it"
    and p0: "pos it = 0"
    by (simp_all add: it_def production_end_def)
  have ok: "production_step it i = Inr (Obj (nat i * 10))" if "pos it \<le> i" "i < 2" for i
    using that by (simp add: it_def production_step_def element_step_def flaky_def compose_item_def)
  have bad: "production_step it 2 = Inl OSError"
    by (simp add: it_def production_step_def element_step_def flaky_def)
  from C1_failure_propagation [OF q nt pe ix pk _ ok bad, of 0] pf
  have "produce it True 0 = (map (\<lambda>i. Inr (Obj (nat i * 10))) (py_range (pos it) 2) @ [Inl OSError], Returned)"
    and "next_n (nat (2 - pos it) + 1) it 0 =
              (map (\<lambda>i. Return (Obj (nat i * 10))) (py_range (pos it) 2) @ [Raise OSError],
               it\<lparr>queue := [], thread := True, pos := 2\<rparr>)"
    by simp_all
  then have "produce it True 0 = ([Inr (Obj 0), Inr (Obj 10), Inl OSError], Returned)"
    and "fst (next_n 3 it 0) = [Return (Obj 0), Return (Obj 10), Raise OSError]"
    by (simp_all add: p0 r)
  then show ?thesis
    by (simp add: Iterator_init_flaky it_def)
qed

lemma Iterator_init_tens_batched:
  "Iterator_init tens [] pf None (Some 2) tr False fsh id rev =
     Inr \<lparr>data = tens, label = [], prefetch = pf, batch_size = Some 2, queue = [],
          length_it = 3, transform = tr, index = [0, 1],
          full_index = (if fsh then Some [2, 1, 0] else None),
          thread = False, pos = 0\<rparr>"
proof -
  have "src_len tens = Inr 3" by (simp add: tens_def)
  moreover have "py_range 0 3 = [0, 1, 2]" "py_range 0 2 = [0, 1]"
    by (simp_all add: py_range_def upto_rec1)
  moreover have "ceil_div 3 2 = 2" by (simp add: ceil_div_def)
  ultimately show ?thesis
    by (simp add: Iterator_init_def Iterator_len_def Let_def)
qed

text \<open>
  Claim C4 as stated (with a batch size and a transform, every ordering mode applies the
  transform to the fetched batch before the item is put on the queue) fails in the
  ordering modes other than full shuffle: the path of contiguous batches never reads
  \<^verbatim>\<open>self.transform\<close>.  With the identity order, batch size 2 and a transform that wraps
  its argument in a list, the item put is the slice \<^verbatim>\<open>data[0:2]\<close> as fetched.
\<close>

theorem C4_counterexample:
  "(case Iterator_init tens [] False None (Some 2) (Some (\<lambda>b. Inr (PyList [b]))) False False id rev of
      Inl e \<Rightarrow> False
    | Inr it \<Rightarrow>
        produce it False 0 = ([Inr (PyList [Obj 0, Obj 10])], Returned)
        \<and> getslice tens 0 2 = Inr (PyList [Obj 0, Obj 10]))"
proof -
  have r: "py_range 0 2 = [0, 1]" by (simp add: py_range_def upto_rec1)
  have c: "ceil_div 3 2 = 2" by (simp add: ceil_div_def)
  have g: "getslice tens 0 2 = Inr (PyList [Obj 0, Obj 10])"
    by (simp add: tens_def py_slice_def slice_bound_def)
  have n: "call tens = None" by (simp add: tens_def)
  show ?thesis
    by (simp add: Iterator_init_tens_batched produce_def produce_batched_def Iterator_len_def
        c r batched_step_def slice_step_def py_index_def fetch_range_def n g compose_item_def)
qed

text \<open>
  Claim C4, amended, for an iterator with a batch size and a step inside the run.
  In full-shuffle mode (an element permutation that is not empty) with a transform, the
  step applies the transform to the list of the fetched data elements and to the list of
  the elements fetched from each label source, and puts the item composed of the results.
  In the modes without element permutation (identity order and batch shuffle) the step puts
  the item composed of the ranges as fetched from the data and label sources, whatever the
  transform is.  Both hold for the synchronous step and for the first entry the worker puts.
\<close>

theorem C4_transform_on_full_shuffle_only:
  assumes bs: "batch_size it = Some bs" and n: "Iterator_len it = Inr n" and p: "pos it < n"
  shows "(full_index it = Some (j # js) \<and> transform it = Some f
          \<and> comprehension (getitem (data it))
                (py_slice (j # js) (pos it * bs) ((pos it + 1) * bs)) = Inr elems
          \<and> f (PyList elems) = Inr data_batch
          \<and> (\<forall>lab\<in>set (label it). \<exists>ls.
                comprehension (getitem lab)
                  (py_slice (j # js) (pos it * bs) ((pos it + 1) * bs)) = Inr ls
                \<and> f (PyList ls) = Inr (label_batch lab))
          \<longrightarrow> produce it False lp =
                ([Inr (compose_item data_batch (map label_batch (label it)))], Returned)
              \<and> (\<exists>tail. fst (produce it True lp) =
                    Inr (compose_item data_batch (map label_batch (label it))) # tail))
       \<and> ((full_index it = None \<or> full_index it = Some [])
          \<and> py_index (index it) (pos it) = Inr ix
          \<and> fetch_range (data it) (ix * bs) ((ix + 1) * bs) = Inr raw
          \<and> (\<forall>lab\<in>set (label it). fetch_range lab (ix * bs) ((ix + 1) * bs) = Inr (raw_label lab))
          \<longrightarrow> produce it False lp = ([Inr (compose_item raw (map raw_label (label it)))], Returned)
              \<and> (\<exists>tail. fst (produce it True lp) =
                    Inr (compose_item raw (map raw_label (label it))) # tail))"
proof -
  have pe: "production_end it = Inr n" by (simp add: production_end_def bs n)
  have r: "py_range (pos it) (pos it + 1) = [pos it]"
    by (simp add: py_range_Cons py_range_empty)
  have both: "produce it False lp = ([Inr item], Returned)
              \<and> (\<exists>tail. fst (produce it True lp) = Inr item # tail)"
    if s: "production_step it (pos it) = Inr item" for item
  proof
    show "produce it False lp = ([Inr item], Returned)"
      using produce_sync [OF pe p, of lp] s by simp
    have "\<exists>tail. fst (produce it True lp)
            = map (\<lambda>i. Inr item) (py_range (pos it) (pos it + 1)) @ tail"
      by (rule produce_daemon_prefix [OF pe]) (use p s in \<open>simp_all add: r\<close>)
    then show "\<exists>tail. fst (produce it True lp) = Inr item # tail"
      by (simp add: r)
  qed
  show ?thesis
  proof (rule conjI; rule impI)
    assume a: "full_index it = Some (j # js) \<and> transform it = Some f
          \<and> comprehension (getitem (data it))
                (py_slice (j # js) (pos it * bs) ((pos it + 1) * bs)) = Inr elems
          \<and> f (PyList elems) = Inr data_batch
          \<and> (\<forall>lab\<in>set (label it). \<exists>ls.
                comprehension (getitem lab)
                  (py_slice (j # js) (pos it * bs) ((pos it + 1) * bs)) = Inr ls
                \<and> f (PyList ls) = Inr (label_batch lab))"
    let ?inds = "py_slice (j # js) (pos it * bs) ((pos it + 1) * bs)"
    have "comprehension
            (\<lambda>lab. case comprehension (getitem lab) ?inds of
                      Inl e \<Rightarrow> Inl e
                    | Inr ls \<Rightarrow> apply_transform it ls)
            (label it) = Inr (map label_batch (label it))"
    proof (rule comprehension_all_Inr)
      fix lab assume "lab \<in> set (label it)"
      with a obtain ls where "comprehension (getitem lab) ?inds = Inr ls"
        "f (PyList ls) = Inr (label_batch lab)" by blast
      then show "(case comprehension (getitem lab) ?inds of
                      Inl e \<Rightarrow> Inl e
                    | Inr ls \<Rightarrow> apply_transform it ls) = Inr (label_batch lab)"
        using a by (simp add: apply_transform_def)
    qed
    then have "production_step it (pos it)
        = Inr (compose_item data_batch (map label_batch (label it)))"
      using a bs
      by (simp add: production_step_def batched_step_def full_shuffle_step_def
          apply_transform_def Let_def)
    then show "produce it False lp =
                ([Inr (compose_item data_batch (map label_batch (label it)))], Returned)
              \<and> (\<exists>tail. fst (produce it True lp) =
                    Inr (compose_item data_batch (map label_batch (label it))) # tail)"
      by (rule both)
  next
    assume a: "(full_index it = None \<or> full_index it = Some [])
          \<and> py_index (index it) (pos it) = Inr ix
          \<and> fetch_range (data it) (ix * bs) ((ix + 1) * bs) = Inr raw
          \<and> (\<forall>lab\<in>set (label it). fetch_range lab (ix * bs) ((ix + 1) * bs) = Inr (raw_label lab))"
    have "comprehension (\<lambda>lab. fetch_range lab (ix * bs) ((ix + 1) * bs)) (label it)
            = Inr (map raw_label (label it))"
      by (rule comprehension_all_Inr) (use a in blast)
    moreover have "batched_step it = slice_step it"
      using a by (auto simp add: batched_step_def)
    ultimately have "production_step it (pos it)
        = Inr (compose_item raw (map raw_label (label it)))"
      using a bs by (simp add: production_step_def slice_step_def)
    then show "produce it False lp = ([Inr (compose_item raw (map raw_label (label it)))], Returned)
              \<and> (\<exists>tail. fst (produce it True lp) =
                    Inr (compose_item raw (map raw_label (label it))) # tail)"
      by (rule both)
  qed
qed


theorem C4_transform_on_full_shuffle_only_witness:
  "(case Iterator_init tens [] False None (Some 2) (Some (\<lambda>b. Inr (PyList [b]))) False True id rev of
      Inl e \<Rightarrow> False
    | Inr it \<Rightarrow>
        produce it False 0 = ([Inr (PyList [PyList [Obj 20, Obj 10]])], Returned))"
proof -
  define f :: "nat pyval \<Rightarrow> exn + nat pyval" where "f = (\<lambda>b. Inr (PyList [b]))"
  define it where "it = \<lparr>data = tens, label = [], prefetch = False, batch_size = Some 2,
          queue = [], length_it = 3, transform = Some f, index = [0, 1],
          full_index = Some [2, 1, 0], thread = False, pos = 0\<rparr>"
  have bs: "batch_size it = Some 2" by (simp add: it_def)
  have n: "Iterator_len it = Inr 2" by (simp add: it_def Iterator_len_def ceil_div_def)
  have p: "pos it < 2" by (simp add: it_def)
  have sl: "py_slice [2, 1, 0] 0 2 = [2, 1::int]"
    by (simp add: py_slice_def slice_bound_def)
  have c: "getitem tens 2 = Inr (Obj 20)" "getitem tens 1 = Inr (Obj 10)"
    by (simp_all add: tens_def)
  have fs: "full_index it = Some (2 # [1, 0]) \<and> transform it = Some f
          \<and> comprehension (getitem (data it))
                (py_slice (2 # [1, 0]) (pos it * 2) ((pos it + 1) * 2)) = Inr [Obj 20, Obj 10]
          \<and> f (PyList [Obj 20, Obj 10]) = Inr (PyList [PyList [Obj 20, Obj 10]])
          \<and> (\<forall>lab\<in>set (label it). \<exists>ls.
                comprehension (getitem lab)
                  (py_slice (2 # [1, 0]) (pos it * 2) ((pos it + 1) * 2)) = Inr ls
                \<and> f (PyList ls) = Inr (PyList []))"
    by (simp add: it_def f_def sl c)
  from C4_transform_on_full_shuffle_only [OF bs n p, THEN conjunct1, rule_format, OF fs, of 0]
  have "produce it False 0 = ([Inr (PyList [PyList [Obj 20, Obj 10]])], Returned)"
    by (simp add: compose_item_def it_def)
  then show ?thesis
    by (simp add: Iterator_init_tens_batched it_def f_def)
qed









end
